theory Spec2Isabelle
  imports Main "HOL-Library.Word"
begin

unbundle bit_operations_syntax

section \<open>Values, buffers and errors\<close>

text \<open>
  A Buffer is a list of bytes. JavaScript values are restricted to the ones the codec
  handles: integer-valued numbers (\<open>Num\<close>), the two infinities, any other number, given
  by the 64 bits of its double (\<open>Dbl\<close>), arbitrary-precision integers of the int64 mode
  (\<open>Big\<close>), strings (\<open>Str\<close>) and Buffers (\<open>Buf\<close>). A string is held as its UTF-8
  encoding, one char per byte, so the strings of the embedding are the ones without an
  unpaired surrogate.
\<close>

type_synonym byte = "8 word"
type_synonym buffer = "byte list"

datatype jsval =
    Undefined
  | Null
  | Boolean bool
  | Num int
  | PosInf
  | NegInf
  | Dbl "64 word"
  | Big int
  | Str string
  | Buf buffer

datatype error =
    BoundsError        \<comment> \<open>'Field runs beyond the length of the buffer.'\<close>
  | OverflowError      \<comment> \<open>'64-bit number too large for javascript number data type'\<close>
  | SizeMismatchError  \<comment> \<open>'Buffer used as ... field must be n bytes long!'\<close>
  | RangeError         \<comment> \<open>raised by the Buffer primitive: index out of range\<close>
  | ValueError         \<comment> \<open>raised by the Buffer primitive: value out of bounds\<close>
  | RedefineError      \<comment> \<open>Object.defineProperty on a non-configurable property\<close>
  | TypeError          \<comment> \<open>a property of undefined is read, or \<open>instanceof null\<close>\<close>
  | ConfigurationError \<comment> \<open>Unexpected argument of a definer\<close>
  | AssertionError string
  | Unmodelled         \<comment> \<open>behaviour of the host that the embedding does not cover\<close>

datatype int64mode = strict | lossy | copy | slice | int64 | skip

section \<open>The Buffer primitive\<close>

definition in_range :: "buffer \<Rightarrow> nat \<Rightarrow> nat \<Rightarrow> bool" where
  "in_range buf off n = (off + n \<le> length buf)"

text \<open>\<open>buf.slice(start, start + n)\<close> and the byte range of \<open>buf.toString\<close>: clamped.\<close>

definition slice_bytes :: "buffer \<Rightarrow> nat \<Rightarrow> nat \<Rightarrow> buffer" where
  "slice_bytes buf off n = take n (drop off buf)"

text \<open>\<open>src.copy(buf, off)\<close>: copies as many bytes as fit, never grows the target.\<close>

definition copy_into :: "buffer \<Rightarrow> buffer \<Rightarrow> nat \<Rightarrow> buffer" where
  "copy_into src buf off =
     (if off \<ge> length buf then buf
      else take off buf @ take (length buf - off) src
           @ drop (off + min (length src) (length buf - off)) buf)"

text \<open>Big-endian bytes of a number, and the number of big-endian bytes.\<close>

fun be_bytes :: "nat \<Rightarrow> int \<Rightarrow> buffer" where
  "be_bytes 0 v = []"
| "be_bytes (Suc n) v = be_bytes n (v div 256) @ [word_of_int v]"

definition be_value :: "buffer \<Rightarrow> int" where
  "be_value bs = foldl (\<lambda>acc b. acc * 256 + uint b) 0 bs"

definition int_bytes :: "bool \<Rightarrow> nat \<Rightarrow> int \<Rightarrow> buffer" where
  "int_bytes le n v = (if le then rev (be_bytes n v) else be_bytes n v)"

definition bytes_uint :: "bool \<Rightarrow> buffer \<Rightarrow> int" where
  "bytes_uint le bs = be_value (if le then rev bs else bs)"

text \<open>
  \<open>buf.readUIntN / readIntN (offset, noAssert)\<close> for N = 8 * n. With the check on, a range
  beyond the buffer raises; with the check off the host reads undefined elements, which
  the embedding does not cover.
\<close>

definition readInt :: "bool \<Rightarrow> bool \<Rightarrow> nat \<Rightarrow> buffer \<Rightarrow> nat \<Rightarrow> bool \<Rightarrow> error + int" where
  "readInt sg le n buf off noAssert =
     (if \<not> in_range buf off n then (if noAssert then Inl Unmodelled else Inl RangeError)
      else let u = bytes_uint le (slice_bytes buf off n)
           in Inr (if sg \<and> u \<ge> 2 ^ (8 * n - 1) then u - 2 ^ (8 * n) else u))"

text \<open>
  \<open>buf.writeUIntN / writeIntN (value, offset, noAssert)\<close>. With the check on, the value
  must lie in the type's range and the bytes inside the buffer. With the check off the
  low bytes of the value are stored at the indices that exist.
\<close>

definition write_at :: "buffer \<Rightarrow> nat \<Rightarrow> buffer \<Rightarrow> buffer" where
  "write_at buf off bs = copy_into bs buf off"

definition writeInt :: "bool \<Rightarrow> bool \<Rightarrow> nat \<Rightarrow> jsval \<Rightarrow> nat \<Rightarrow> bool \<Rightarrow> buffer \<Rightarrow> error option \<times> buffer" where
  "writeInt sg le n val off noAssert buf =
     (case val of
        Num v \<Rightarrow>
          (let lo = (if sg then - (2 ^ (8 * n - 1)) else 0);
               hi = (if sg then 2 ^ (8 * n - 1) - 1 else 2 ^ (8 * n) - 1)
           in if \<not> noAssert \<and> (v > hi \<or> v < lo) then (Some ValueError, buf)
              else if \<not> noAssert \<and> \<not> in_range buf off n then (Some RangeError, buf)
              else (None, write_at buf off (int_bytes le n v)))
      | _ \<Rightarrow> (Some Unmodelled, buf))"

section \<open>The 64-bit integer codec\<close>

text \<open>
  \<open>readInt64AsNumber\<close>. \<open>hi\<close> and \<open>lo\<close> are the unsigned 32-bit halves. The bitwise
  operators of the host work on 32 bits and give a signed result, a shift count is taken
  modulo 32, and \<open>0xFFF00000\<close> as a literal is the positive number 4293918720.
\<close>

definition js_and :: "32 word \<Rightarrow> 32 word \<Rightarrow> int" where
  "js_and a b = sint (a AND b)"

definition js_shl :: "int \<Rightarrow> nat \<Rightarrow> int" where
  "js_shl a k = sint (push_bit (k mod 32) (word_of_int a :: 32 word))"

definition js_or :: "int \<Rightarrow> int \<Rightarrow> int" where
  "js_or a b = sint ((word_of_int a :: 32 word) OR word_of_int b)"

definition js_sar :: "int \<Rightarrow> nat \<Rightarrow> int" where
  "js_sar a k = sint (signed_drop_bit (k mod 32) (word_of_int a :: 32 word))"

definition readInt64AsNumber ::
  "bool \<Rightarrow> bool \<Rightarrow> int64mode option \<Rightarrow> int64mode option \<Rightarrow> buffer \<Rightarrow> nat \<Rightarrow> bool \<Rightarrow> error + jsval" where
  "readInt64AsNumber sg littleEndian field_mode def_mode buf offset noAssert =
     (if \<not> noAssert \<and> offset + 8 > length buf then Inl BoundsError
      else
        let mode = (case field_mode of Some m \<Rightarrow> m
                    | None \<Rightarrow> (case def_mode of Some m \<Rightarrow> m | None \<Rightarrow> strict))
        in if mode = int64 \<or> mode = lossy \<or> mode = strict then
             (case (if littleEndian
                    then (readInt False True 4 buf (offset + 4) noAssert,
                          readInt False True 4 buf (offset + 0) noAssert)
                    else (readInt False False 4 buf (offset + 0) noAssert,
                          readInt False False 4 buf (offset + 4) noAssert)) of
                (Inl e, _) \<Rightarrow> Inl e
              | (Inr _, Inl e) \<Rightarrow> Inl e
              | (Inr hi, Inr lo) \<Rightarrow>
                  if mode = int64 then Inr (Big (lo + hi * 4294967296))
                  else
                    let lostBits = js_and (word_of_int hi) 0xFFF00000
                    in if lostBits \<noteq> 0 \<and> (\<not> sg \<or> lostBits \<noteq> 4293918720) then
                         (if mode = strict then Inl OverflowError
                          else if \<not> sg \<or> js_and (word_of_int hi) 0x80000000 = 0
                               then Inr PosInf else Inr NegInf)
                       else Inr (Num (js_or (js_shl (js_and (word_of_int hi) 0x001FFFFF) 32)
                                            (js_and (word_of_int lo) 0xFFFFFFFF))))
           else if mode = slice then Inr (Buf (slice_bytes buf offset 8))
           else if mode = copy then
             (if offset > length buf then Inl RangeError
              else Inr (Buf (copy_into (slice_bytes buf offset 8) (replicate 8 0) 0)))
           else Inr Undefined)"

text \<open>The two 32-bit halves that \<open>readInt64AsNumber\<close> reads, as (hi, lo).\<close>

definition halves :: "bool \<Rightarrow> buffer \<Rightarrow> nat \<Rightarrow> int \<times> int" where
  "halves le buf off =
     (if le then (bytes_uint True (slice_bytes buf (off + 4) 4),
                  bytes_uint True (slice_bytes buf off 4))
      else (bytes_uint False (slice_bytes buf off 4),
            bytes_uint False (slice_bytes buf (off + 4) 4)))"

text \<open>
  \<open>createInt64Writer\<close>. A number passes the first test by its type, and is then tested
  with \<open>val instanceof BigNumber\<close>: while the BigNumber module is not loaded this raises a
  TypeError before anything is written; once it is loaded the number is split with
  \<open>val >> 32\<close> and \<open>val & 0xFFFFFFFF\<close> (the embedding follows the split for
  integer-valued numbers and the infinities). An arbitrary-precision value is recognised only
  when the module is loaded, and split through its last 64 binary digits; a Buffer must
  be 8 bytes long; any other value writes nothing.
\<close>

definition writeHalves :: "bool \<Rightarrow> jsval \<Rightarrow> jsval \<Rightarrow> nat \<Rightarrow> bool \<Rightarrow> buffer \<Rightarrow> error option \<times> buffer" where
  "writeHalves littleEndian hi lo offset noAssert buf =
     (if littleEndian then
        (case writeInt False True 4 hi (offset + 4) noAssert buf of
           (Some e, b) \<Rightarrow> (Some e, b)
         | (None, b) \<Rightarrow> writeInt False True 4 lo (offset + 0) noAssert b)
      else
        (case writeInt False False 4 hi (offset + 0) noAssert buf of
           (Some e, b) \<Rightarrow> (Some e, b)
         | (None, b) \<Rightarrow> writeInt False False 4 lo (offset + 4) noAssert b))"

definition writeInt64 :: "bool \<Rightarrow> bool \<Rightarrow> bool \<Rightarrow> jsval \<Rightarrow> nat \<Rightarrow> bool \<Rightarrow> buffer \<Rightarrow> error option \<times> buffer" where
  "writeInt64 bigNumber sg littleEndian val offset noAssert buf =
     (case val of
        Num v \<Rightarrow>
          if \<not> bigNumber then (Some TypeError, buf)
          else writeHalves littleEndian (Num (js_sar v 32))
                 (Num (js_and (word_of_int v) 0xFFFFFFFF)) offset noAssert buf
      | PosInf \<Rightarrow>
          if \<not> bigNumber then (Some TypeError, buf)
          else writeHalves littleEndian (Num 0) (Num 0) offset noAssert buf
      | NegInf \<Rightarrow>
          if \<not> bigNumber then (Some TypeError, buf)
          else writeHalves littleEndian (Num 0) (Num 0) offset noAssert buf
      | Dbl w \<Rightarrow> if \<not> bigNumber then (Some TypeError, buf) else (Some Unmodelled, buf)
      | Big v \<Rightarrow>
          if \<not> bigNumber then (None, buf)
          else if v < 0 then (Some Unmodelled, buf)
          else writeHalves littleEndian (Num ((v mod 2 ^ 64) div 2 ^ 32))
                 (Num (v mod 2 ^ 32)) offset noAssert buf
      | Buf b \<Rightarrow>
          if length b \<noteq> 8 then (Some SizeMismatchError, buf)
          else (None, copy_into b buf offset)
      | _ \<Rightarrow> (None, buf))"

section \<open>Text and block codecs\<close>

definition ascii :: "string \<Rightarrow> bool" where
  "ascii s = list_all (\<lambda>c. (of_char c :: nat) < 128) s"

definition utf8_encode :: "string \<Rightarrow> buffer" where
  "utf8_encode s = map (\<lambda>c. of_nat (of_char c)) s"

text \<open>
  The length in bytes of the well-formed UTF-8 character that a byte sequence starts
  with, 0 when it starts with none.
\<close>

definition cont :: "byte \<Rightarrow> bool" where
  "cont b = (0x80 \<le> b \<and> b \<le> 0xBF)"

definition utf8_char :: "buffer \<Rightarrow> nat" where
  "utf8_char bs =
     (case bs of
        [] \<Rightarrow> 0
      | b0 # r \<Rightarrow>
          if b0 < 0x80 then 1
          else if 0xC2 \<le> b0 \<and> b0 \<le> 0xDF then
            (case r of b1 # _ \<Rightarrow> if cont b1 then 2 else 0 | _ \<Rightarrow> 0)
          else if 0xE0 \<le> b0 \<and> b0 \<le> 0xEF then
            (case r of
               b1 # b2 # _ \<Rightarrow>
                 if (if b0 = 0xE0 then 0xA0 \<le> b1 \<and> b1 \<le> 0xBF
                     else if b0 = 0xED then 0x80 \<le> b1 \<and> b1 \<le> 0x9F
                     else cont b1) \<and> cont b2
                 then 3 else 0
             | _ \<Rightarrow> 0)
          else if 0xF0 \<le> b0 \<and> b0 \<le> 0xF4 then
            (case r of
               b1 # b2 # b3 # _ \<Rightarrow>
                 if (if b0 = 0xF0 then 0x90 \<le> b1 \<and> b1 \<le> 0xBF
                     else if b0 = 0xF4 then 0x80 \<le> b1 \<and> b1 \<le> 0x8F
                     else cont b1) \<and> cont b2 \<and> cont b3
                 then 4 else 0
             | _ \<Rightarrow> 0)
          else 0)"

text \<open>A byte sequence that is a sequence of well-formed characters.\<close>

function utf8_valid :: "buffer \<Rightarrow> bool" where
  "utf8_valid bs =
     (if bs = [] then True
      else if utf8_char bs = 0 then False
      else utf8_valid (drop (utf8_char bs) bs))"
  by pat_completeness auto
termination
  by (relation "measure length") (auto simp add: utf8_char_def split: list.splits)

text \<open>The longest prefix of whole characters that fits into \<open>room\<close> bytes.\<close>

function utf8_fit :: "nat \<Rightarrow> buffer \<Rightarrow> buffer" where
  "utf8_fit room bs =
     (if utf8_char bs = 0 \<or> room < utf8_char bs then []
      else take (utf8_char bs) bs @ utf8_fit (room - utf8_char bs) (drop (utf8_char bs) bs))"
  by pat_completeness auto
termination
  by (relation "measure (\<lambda>(room, bs). length bs)") (auto simp add: utf8_char_def split: list.splits)

text \<open>
  \<open>string.length\<close>, the number of UTF-16 code units: a character of four bytes takes
  two, any other one.
\<close>

function utf16_length :: "buffer \<Rightarrow> nat" where
  "utf16_length bs =
     (if utf8_char bs = 0 then 0
      else (if utf8_char bs = 4 then 2 else 1) + utf16_length (drop (utf8_char bs) bs))"
  by pat_completeness auto
termination
  by (relation "measure length") (auto simp add: utf8_char_def split: list.splits)

declare utf8_valid.simps [simp del]
declare utf8_fit.simps [simp del]
declare utf16_length.simps [simp del]

definition well_formed :: "string \<Rightarrow> bool" where
  "well_formed s = utf8_valid (utf8_encode s)"

text \<open>
  \<open>buf.toString('utf8', start, end)\<close>. Bytes that are no well-formed UTF-8 decode to
  replacement characters, which the embedding does not follow.
\<close>

definition utf8_decode :: "buffer \<Rightarrow> error + string" where
  "utf8_decode bs =
     (if utf8_valid bs then Inr (map (\<lambda>b. char_of (unat b)) bs)
      else Inl Unmodelled)"

definition readbuffer :: "nat \<Rightarrow> buffer \<Rightarrow> nat \<Rightarrow> bool \<Rightarrow> error + jsval" where
  "readbuffer sz buf offset noAssert =
     (if \<not> noAssert \<and> offset + sz > length buf then Inl BoundsError
      else Inr (Buf (slice_bytes buf offset sz)))"

definition writebuffer :: "nat \<Rightarrow> jsval \<Rightarrow> nat \<Rightarrow> bool \<Rightarrow> buffer \<Rightarrow> error option \<times> buffer" where
  "writebuffer sz val offset noAssert buf =
     (case val of
        Buf b \<Rightarrow> if length b \<noteq> sz then (Some SizeMismatchError, buf)
                 else (None, copy_into b buf offset)
      | _ \<Rightarrow> (None, buf))"

definition readString :: "nat \<Rightarrow> buffer \<Rightarrow> nat \<Rightarrow> bool \<Rightarrow> error + jsval" where
  "readString sz buf offset noAssert =
     (if \<not> noAssert \<and> offset + sz > length buf then Inl BoundsError
      else map_sum id Str (utf8_decode (slice_bytes buf offset sz)))"

text \<open>
  \<open>buf.fill(0, start, end)\<close> raises when \<open>end\<close> is beyond the buffer;
  \<open>buf.write(string, offset)\<close> stores as many whole characters of the string as the
  rest of the buffer holds.
\<close>

definition fill_zero :: "buffer \<Rightarrow> nat \<Rightarrow> nat \<Rightarrow> error option \<times> buffer" where
  "fill_zero buf start end =
     (if end > length buf then (Some RangeError, buf)
      else if end \<le> start then (None, buf)
      else (None, copy_into (replicate (end - start) 0) buf start))"

definition buf_write :: "buffer \<Rightarrow> string \<Rightarrow> nat \<Rightarrow> error option \<times> buffer" where
  "buf_write buf s offset =
     (if \<not> well_formed s then (Some Unmodelled, buf)
      else if s \<noteq> [] \<and> offset > length buf then (Some RangeError, buf)
      else (None, copy_into (utf8_fit (length buf - offset) (utf8_encode s)) buf offset))"

definition writeString :: "nat \<Rightarrow> jsval \<Rightarrow> nat \<Rightarrow> bool \<Rightarrow> buffer \<Rightarrow> error option \<times> buffer" where
  "writeString sz val offset noAssert buf =
     (case val of
        Str s \<Rightarrow>
          (case fill_zero buf offset (offset + sz) of
             (Some e, b) \<Rightarrow> (Some e, b)
           | (None, b) \<Rightarrow> buf_write b s offset)
      | Buf b \<Rightarrow> if length b \<noteq> sz then (Some SizeMismatchError, buf)
                 else (None, copy_into b buf offset)
      | _ \<Rightarrow> (None, buf))"

section \<open>Field specifications and the schema\<close>

text \<open>
  A field is named by a string, or by its position when the definer got no name. As a
  property key of the \<open>data\<close> object and of the record view a position is its decimal
  rendering.
\<close>

datatype fname = Named string | Positional nat

fun decimal :: "nat \<Rightarrow> string" where
  "decimal n = (if n < 10 then [char_of (48 + n)]
                else decimal (n div 10) @ [char_of (48 + n mod 10)])"

fun key_of :: "fname \<Rightarrow> string" where
  "key_of (Named s) = s"
| "key_of (Positional n) = decimal n"

text \<open>
  The type of a field fixes its \<open>read\<close> and \<open>write\<close> functions: an integer of 1, 2 or 4
  bytes handled by the Buffer primitive (bytes, signed, little-endian), a 64-bit integer
  (signed, little-endian), a floating-point number of 4 or 8 bytes, text or an opaque
  block. The floating-point primitives of the Buffer are not part of this program: a
  field holds them as they are given, the number that the bytes of the field decode to
  and the bytes that a value is stored as.
\<close>

type_synonym float_prim = "(buffer \<Rightarrow> jsval) \<times> (jsval \<Rightarrow> buffer)"

datatype ftype =
    IntT nat bool bool
  | Int64T bool bool
  | FloatT nat "buffer \<Rightarrow> jsval" "jsval \<Rightarrow> buffer"
  | StringT
  | BufferT

record field =
  f_name :: fname
  f_type :: ftype
  f_size :: nat
  f_offset :: nat
  f_codec :: bool                     \<comment> \<open>\<open>read\<close> and \<open>write\<close> are defined\<close>
  f_value :: "jsval option"           \<comment> \<open>the key \<open>value\<close>, when present\<close>
  f_sizeFieldName :: "string option"
  f_int64mode :: "int64mode option"

text \<open>
  \<open>props\<close> is the property table of the record view's prototype: key and
  \<open>configurable\<close>. \<open>bigNumber\<close> tells whether the arbitrary-precision module is loaded.
\<close>

record structdef =
  sd_fields :: "field list"
  staticSized :: bool
  sd_size :: nat
  littleEndian :: bool
  noAssert :: bool
  sd_int64mode :: int64mode
  props :: "(string \<times> bool) list"
  bigNumber :: bool

record opts =
  o_littleEndian :: bool
  o_noAssert :: bool
  o_int64mode :: "int64mode option"

definition StructDef :: "bool \<Rightarrow> opts option \<Rightarrow> structdef" where
  "StructDef loaded os =
     \<lparr> sd_fields = [], staticSized = True, sd_size = 0,
       littleEndian = (case os of None \<Rightarrow> False | Some x \<Rightarrow> o_littleEndian x),
       noAssert = (case os of None \<Rightarrow> False | Some x \<Rightarrow> o_noAssert x),
       sd_int64mode = (case os of None \<Rightarrow> strict
                       | Some x \<Rightarrow> (case o_int64mode x of None \<Rightarrow> strict | Some m \<Rightarrow> m)),
       props = [],
       bigNumber = (loaded \<or> (case os of None \<Rightarrow> False | Some x \<Rightarrow> o_int64mode x = Some int64)) \<rparr>"

text \<open>
  Names that are members of the schema object or of the view prototype (the definers
  among them), and \<open>__proto__\<close>, which is no ordinary key of a decoded record: a field
  of such a name would replace the member, which the embedding does not follow.
\<close>

definition reserved :: "string list" where
  "reserved = [''fields'', ''staticSized'', ''size'', ''littleEndian'', ''noAssert'',
     ''int64mode'', ''Wrapper'', ''field'', ''pack'', ''unpack'', ''read'', ''write'',
     ''wrap'', ''checkSize'', ''string'', ''buffer'', ''byte'', ''_def'', ''_fields'',
     ''_buffer'', ''checkValues'', ''writeValues'',
     ''uint8'', ''int8'', ''uint16'', ''uint16be'', ''uint16le'', ''int16'', ''int16be'',
     ''int16le'', ''uint32'', ''uint32be'', ''uint32le'', ''int32'', ''int32be'',
     ''int32le'', ''uint64'', ''uint64be'', ''uint64le'', ''int64'', ''int64be'',
     ''int64le'', ''float'', ''floatbe'', ''floatle'', ''double'', ''doublebe'',
     ''doublele'', ''__proto__'']"

text \<open>
  \<open>StructDef.prototype.field\<close>: a new name gets the running size as its offset and is
  appended; then the accessor property is (re)defined, which raises when a property of
  that key exists and is not configurable. A registered name is not appended again; the
  embedding follows this only for the field object that is already in the table.
\<close>

definition field :: "structdef \<Rightarrow> field \<Rightarrow> error + structdef" where
  "field d f =
     (let key = key_of (f_name f);
          desc = (key, f_sizeFieldName f \<noteq> None)
      in if key \<in> set reserved then Inl Unmodelled
         else if map_of (props d) key = Some False then Inl RedefineError
         else (case find (\<lambda>g. f_name g = f_name f) (sd_fields d) of
                 None \<Rightarrow>
                   Inr (d\<lparr> sd_fields := sd_fields d @ [f\<lparr> f_offset := sd_size d \<rparr>],
                          sd_size := sd_size d + f_size f,
                          props := desc # props d \<rparr>)
               | Some g \<Rightarrow>
                   if g = f then Inr (d\<lparr> props := desc # props d \<rparr>)
                   else Inl Unmodelled))"

section \<open>The definers\<close>

text \<open>
  Truthiness of a value, as \<open>if (v)\<close> and \<open>v || 0\<close> see it. Of the doubles the two
  zeros (all bits after the sign 0) and the NaNs (exponent bits all 1, fraction not 0)
  are falsy.
\<close>

definition dbl_falsy :: "64 word \<Rightarrow> bool" where
  "dbl_falsy w = (w AND 0x7FFFFFFFFFFFFFFF = 0
                  \<or> (w AND 0x7FF0000000000000 = 0x7FF0000000000000
                      \<and> w AND 0x000FFFFFFFFFFFFF \<noteq> 0))"

fun truthy :: "jsval \<Rightarrow> bool" where
  "truthy Undefined = False"
| "truthy Null = False"
| "truthy (Boolean b) = b"
| "truthy (Num v) = (v \<noteq> 0)"
| "truthy (Dbl w) = (\<not> dbl_falsy w)"
| "truthy (Str s) = (s \<noteq> [])"
| "truthy _ = True"

datatype bits = B8 | B16 | B32 | B64

fun bytes_of :: "bits \<Rightarrow> nat" where
  "bytes_of B8 = 1" | "bytes_of B16 = 2" | "bytes_of B32 = 4" | "bytes_of B64 = 8"

text \<open>
  \<open>defineIntField\<close>: the arguments are looked at in order; a falsy one is ignored, a
  Buffer or a number is the default value, a string is the name, a boolean is refused.
  Override objects are outside the embedding. The byte order is that of the definer,
  or the schema's when the definer has no suffix; a single byte has none.
\<close>

fun int_args :: "jsval list \<Rightarrow> field \<Rightarrow> error + field" where
  "int_args [] f = Inr f"
| "int_args (a # as) f =
     (if \<not> truthy a then int_args as f
      else case a of
        Buf b \<Rightarrow> int_args as (f\<lparr> f_value := Some a \<rparr>)
      | Num v \<Rightarrow> int_args as (f\<lparr> f_value := Some a \<rparr>)
      | PosInf \<Rightarrow> int_args as (f\<lparr> f_value := Some a \<rparr>)
      | NegInf \<Rightarrow> int_args as (f\<lparr> f_value := Some a \<rparr>)
      | Dbl w \<Rightarrow> int_args as (f\<lparr> f_value := Some a \<rparr>)
      | Str s \<Rightarrow> int_args as (f\<lparr> f_name := Named s \<rparr>)
      | Big v \<Rightarrow> Inl Unmodelled
      | _ \<Rightarrow> Inl ConfigurationError)"

definition defineIntField :: "bits \<Rightarrow> bool \<Rightarrow> bool option \<Rightarrow> structdef \<Rightarrow> jsval list \<Rightarrow> error + structdef" where
  "defineIntField bs sg endian d args =
     (let le = (if bs = B8 then False
                else case endian of Some b \<Rightarrow> b | None \<Rightarrow> littleEndian d);
          f = \<lparr> f_name = Positional (length (sd_fields d)),
                f_type = (if bs = B64 then Int64T sg le else IntT (bytes_of bs) sg le),
                f_size = bytes_of bs, f_offset = 0, f_codec = True, f_value = None,
                f_sizeFieldName = None, f_int64mode = None \<rparr>
      in case int_args args f of Inl e \<Rightarrow> Inl e | Inr g \<Rightarrow> field d g)"

text \<open>
  The definers of the floating-point fields are made by the same \<open>defNumberType\<close>, with
  the Buffer's primitives for 4 or 8 bytes in the byte order of the definer.
\<close>

definition defineFloatField ::
  "bool \<Rightarrow> bool option \<Rightarrow> (bool \<Rightarrow> bool \<Rightarrow> float_prim) \<Rightarrow> structdef \<Rightarrow> jsval list \<Rightarrow> error + structdef" where
  "defineFloatField dbl endian prim d args =
     (let le = (case endian of Some b \<Rightarrow> b | None \<Rightarrow> littleEndian d);
          n = (if dbl then 8 else 4);
          f = \<lparr> f_name = Positional (length (sd_fields d)),
                f_type = FloatT n (fst (prim dbl le)) (snd (prim dbl le)),
                f_size = n, f_offset = 0, f_codec = True, f_value = None,
                f_sizeFieldName = None, f_int64mode = None \<rparr>
      in case int_args args f of Inl e \<Rightarrow> Inl e | Inr g \<Rightarrow> field d g)"

text \<open>
  \<open>defineStringField\<close>: the second argument is a Buffer (default value and size), the
  name of a registered field (the size is deferred to that field's value), any other
  string (the default value is the Buffer of its encoding, the size is its
  \<open>length\<close>), or a size.
\<close>

definition defineStringField :: "structdef \<Rightarrow> string \<Rightarrow> jsval \<Rightarrow> error + structdef" where
  "defineStringField d nm arg =
     (let f = \<lparr> f_name = Named nm, f_type = StringT, f_size = 0, f_offset = 0,
                f_codec = False, f_value = None, f_sizeFieldName = None,
                f_int64mode = None \<rparr>
      in case arg of
           Buf b \<Rightarrow> field d (f\<lparr> f_value := Some arg, f_size := length b, f_codec := True \<rparr>)
         | Str s \<Rightarrow>
             (case find (\<lambda>g. f_name g = Named s) (sd_fields d) of
                None \<Rightarrow>
                  if well_formed s
                  then field d (f\<lparr> f_value := Some (Buf (utf8_encode s)),
                                    f_size := utf16_length (utf8_encode s),
                                    f_codec := True \<rparr>)
                  else Inl Unmodelled
              | Some g \<Rightarrow>
                  field (d\<lparr> staticSized := False \<rparr>) (f\<lparr> f_sizeFieldName := Some s \<rparr>))
         | Num n \<Rightarrow> if n < 0 then Inl Unmodelled
                    else field d (f\<lparr> f_size := nat n, f_codec := True \<rparr>)
         | Null \<Rightarrow> field d (f\<lparr> f_codec := True \<rparr>)
         | Undefined \<Rightarrow> Inl ConfigurationError
         | Boolean b \<Rightarrow> Inl ConfigurationError
         | _ \<Rightarrow> Inl Unmodelled)"

definition defineBufferField :: "structdef \<Rightarrow> string \<Rightarrow> jsval \<Rightarrow> error + structdef" where
  "defineBufferField d nm arg =
     (let f = \<lparr> f_name = Named nm, f_type = BufferT, f_size = 0, f_offset = 0,
                f_codec = False, f_value = None, f_sizeFieldName = None,
                f_int64mode = None \<rparr>
      in case arg of
           Buf b \<Rightarrow> field d (f\<lparr> f_value := Some arg, f_size := length b, f_codec := True \<rparr>)
         | Num n \<Rightarrow> if n < 0 then Inl Unmodelled
                    else field d (f\<lparr> f_size := nat n, f_codec := True \<rparr>)
         | Null \<Rightarrow> field d (f\<lparr> f_codec := True \<rparr>)
         | Undefined \<Rightarrow> Inl ConfigurationError
         | Boolean b \<Rightarrow> Inl ConfigurationError
         | Str s \<Rightarrow> Inl ConfigurationError
         | _ \<Rightarrow> Inl Unmodelled)"

text \<open>
  A schema is built by a sequence of definer calls on a fresh \<open>StructDef\<close>. A call of
  a floating-point definer (double or float, byte order) comes with the primitives of
  the Buffer.
\<close>

datatype decl =
    DInt bits bool "bool option" "jsval list"
  | DFloat bool "bool option" "bool \<Rightarrow> bool \<Rightarrow> float_prim" "jsval list"
  | DString string jsval
  | DBuffer string jsval

fun definer :: "structdef \<Rightarrow> decl \<Rightarrow> error + structdef" where
  "definer d (DInt bs sg endian args) = defineIntField bs sg endian d args"
| "definer d (DFloat dbl endian prim args) = defineFloatField dbl endian prim d args"
| "definer d (DString nm arg) = defineStringField d nm arg"
| "definer d (DBuffer nm arg) = defineBufferField d nm arg"

fun build :: "structdef \<Rightarrow> decl list \<Rightarrow> error + structdef" where
  "build d [] = Inr d"
| "build d (x # xs) = (case definer d x of Inl e \<Rightarrow> Inl e | Inr d' \<Rightarrow> build d' xs)"

section \<open>Reading and writing one field\<close>

text \<open>
  \<open>buf.readFloatBE\<close> and its like (offset, noAssert), \<open>buf.writeFloatBE\<close> and its like
  (value, offset, noAssert), over the given primitive of \<open>n\<close> bytes: a range beyond the
  buffer raises with the check on; with the check off the host's behaviour is not
  followed.
\<close>

definition readFloat :: "nat \<Rightarrow> (buffer \<Rightarrow> jsval) \<Rightarrow> buffer \<Rightarrow> nat \<Rightarrow> bool \<Rightarrow> error + jsval" where
  "readFloat n dec buf off na =
     (if \<not> in_range buf off n then (if na then Inl Unmodelled else Inl RangeError)
      else Inr (dec (slice_bytes buf off n)))"

definition writeFloat ::
  "nat \<Rightarrow> (jsval \<Rightarrow> buffer) \<Rightarrow> jsval \<Rightarrow> nat \<Rightarrow> bool \<Rightarrow> buffer \<Rightarrow> error option \<times> buffer" where
  "writeFloat n enc val off na buf =
     (if \<not> in_range buf off n then (Some (if na then Unmodelled else RangeError), buf)
      else if length (enc val) \<noteq> n then (Some Unmodelled, buf)
      else (None, write_at buf off (enc val)))"

definition field_read :: "field \<Rightarrow> int64mode option \<Rightarrow> buffer \<Rightarrow> nat \<Rightarrow> bool \<Rightarrow> error + jsval" where
  "field_read f def_mode buf offset na =
     (case f_type f of
        IntT n sg le \<Rightarrow> map_sum id Num (readInt sg le n buf offset na)
      | Int64T sg le \<Rightarrow> readInt64AsNumber sg le (f_int64mode f) def_mode buf offset na
      | FloatT n dec enc \<Rightarrow> readFloat n dec buf offset na
      | StringT \<Rightarrow> readString (f_size f) buf offset na
      | BufferT \<Rightarrow> readbuffer (f_size f) buf offset na)"

definition field_write :: "bool \<Rightarrow> field \<Rightarrow> jsval \<Rightarrow> nat \<Rightarrow> bool \<Rightarrow> buffer \<Rightarrow> error option \<times> buffer" where
  "field_write bn f val offset na buf =
     (case f_type f of
        IntT n sg le \<Rightarrow> writeInt sg le n val offset na buf
      | Int64T sg le \<Rightarrow> writeInt64 bn sg le val offset na buf
      | FloatT n dec enc \<Rightarrow> writeFloat n enc val offset na buf
      | StringT \<Rightarrow> writeString (f_size f) val offset na buf
      | BufferT \<Rightarrow> writebuffer (f_size f) val offset na buf)"

section \<open>unpack\<close>

text \<open>
  The resolve step of a deferred field, shared by \<open>unpack\<close> and \<open>pack\<close>: the schema's
  size moves by the difference, the field gets the size and a text codec for it, and the
  field is registered again. The offsets of the other fields are not touched. The source
  calls it with the index of a field of the table, whose size is part of the schema's
  size.
\<close>

definition resolve :: "structdef \<Rightarrow> nat \<Rightarrow> nat \<Rightarrow> error + structdef" where
  "resolve d i n =
     (let f = sd_fields d ! i;
          f' = f\<lparr> f_size := n, f_codec := True \<rparr>
      in if length (sd_fields d) \<le> i \<or> sd_size d + n < f_size f then Inl Unmodelled
         else field (d\<lparr> sd_size := sd_size d + n - f_size f,
                        sd_fields := (sd_fields d)[i := f'] \<rparr>) f')"

text \<open>
  The properties of the \<open>data\<close> object (\<open>key in data\<close>, own or inherited) and of a
  decoded record, by key.
\<close>

type_synonym record_data = "string \<rightharpoonup> jsval"

definition readField ::
  "structdef \<Rightarrow> nat \<Rightarrow> buffer \<Rightarrow> nat \<Rightarrow> bool \<Rightarrow> record_data \<Rightarrow> error + (record_data \<times> structdef)" where
  "readField d i buf offset na data =
     (case (case f_sizeFieldName (sd_fields d ! i) of
              None \<Rightarrow> Inr d
            | Some sn \<Rightarrow>
                if sn = [] then Inr d
                else (case data sn of
                        Some (Num n) \<Rightarrow> if n < 0 then Inl Unmodelled else resolve d i (nat n)
                      | _ \<Rightarrow> Inl Unmodelled)) of
        Inl e \<Rightarrow> Inl e
      | Inr d' \<Rightarrow>
          (let f = sd_fields d' ! i
           in if f_codec f then
                (case field_read f (Some (sd_int64mode d')) buf (offset + f_offset f) na of
                   Inl e \<Rightarrow> Inl e
                 | Inr v \<Rightarrow>
                     Inr (case f_name f of Named s \<Rightarrow> data(s \<mapsto> v) | Positional k \<Rightarrow> data, d'))
              else Inr (data, d')))"

fun readFields ::
  "nat list \<Rightarrow> structdef \<Rightarrow> buffer \<Rightarrow> nat \<Rightarrow> bool \<Rightarrow> record_data \<Rightarrow> error + (record_data \<times> structdef)" where
  "readFields [] d buf offset na data = Inr (data, d)"
| "readFields (i # is) d buf offset na data =
     (case readField d i buf offset na data of
        Inl e \<Rightarrow> Inl e
      | Inr (data', d') \<Rightarrow> readFields is d' buf offset na data')"

text \<open>
  \<open>unpack(buf, undefined, offset, noAssert)\<close>: the decoded record and the schema as the
  call leaves it. The target constructor is outside the embedding.
\<close>

definition unpack ::
  "structdef \<Rightarrow> buffer \<Rightarrow> nat option \<Rightarrow> bool option \<Rightarrow> error + (record_data \<times> structdef)" where
  "unpack d buf offset na =
     readFields [0 ..< length (sd_fields d)] d buf
       (case offset of None \<Rightarrow> 0 | Some k \<Rightarrow> k)
       (case na of None \<Rightarrow> noAssert d | Some b \<Rightarrow> b) Map.empty"

section \<open>pack\<close>

definition pack_value :: "record_data \<Rightarrow> field \<Rightarrow> jsval" where
  "pack_value data f =
     (let v = (case data (key_of (f_name f)) of
                 Some x \<Rightarrow> x
               | None \<Rightarrow> (case f_value f of Some x \<Rightarrow> x | None \<Rightarrow> Undefined))
      in if truthy v then v else Num 0)"

definition find_index :: "('a \<Rightarrow> bool) \<Rightarrow> 'a list \<Rightarrow> nat" where
  "find_index P xs = length (takeWhile (\<lambda>x. \<not> P x) xs)"

definition resolve_pack :: "structdef \<Rightarrow> record_data \<Rightarrow> error + structdef" where
  "resolve_pack d data =
     (case find (\<lambda>f. f_sizeFieldName f \<noteq> None) (sd_fields d) of
        None \<Rightarrow> Inl TypeError
      | Some variableSizedField \<Rightarrow>
          (case find (\<lambda>f. Some (f_name f) = map_option Named (f_sizeFieldName variableSizedField))
                  (sd_fields d) of
             None \<Rightarrow> Inl TypeError
           | Some sizeIndicatorField \<Rightarrow>
               (case pack_value data sizeIndicatorField of
                  Num n \<Rightarrow>
                    if n < 0 then Inl Unmodelled
                    else resolve d (find_index (\<lambda>f. f_sizeFieldName f \<noteq> None) (sd_fields d)) (nat n)
                | _ \<Rightarrow> Inl Unmodelled)))"

fun writeFields ::
  "bool \<Rightarrow> field list \<Rightarrow> record_data \<Rightarrow> nat \<Rightarrow> bool \<Rightarrow> buffer \<Rightarrow> error option \<times> buffer" where
  "writeFields bn [] data offset na buf = (None, buf)"
| "writeFields bn (f # fs) data offset na buf =
     (if f_codec f then
        (case field_write bn f (pack_value data f) (offset + f_offset f) na buf of
           (Some e, b) \<Rightarrow> (Some e, b)
         | (None, b) \<Rightarrow> writeFields bn fs data offset na b)
      else writeFields bn fs data offset na buf)"

text \<open>
  \<open>pack(data, buf, offset, noAssert)\<close>: the error raised, if any, the destination buffer
  as the call leaves it (the one returned when no error is raised), and the schema as
  the call leaves it. A buffer that \<open>pack\<close> allocates is zero-filled, as
  \<open>new Buffer(n)\<close> is from Node 8 on.
\<close>

definition pack ::
  "structdef \<Rightarrow> record_data \<Rightarrow> buffer option \<Rightarrow> nat option \<Rightarrow> bool option
     \<Rightarrow> error option \<times> buffer \<times> structdef" where
  "pack d data buf offset na =
     (case (if \<not> staticSized d then resolve_pack d data else Inr d) of
        Inl e \<Rightarrow> (Some e, (case buf of None \<Rightarrow> [] | Some b \<Rightarrow> b), d)
      | Inr d' \<Rightarrow>
          (let na' = (case na of None \<Rightarrow> noAssert d' | Some b \<Rightarrow> b);
               offset' = (case offset of None \<Rightarrow> 0 | Some k \<Rightarrow> k);
               buf' = (case buf of None \<Rightarrow> replicate (sd_size d' + offset') 0 | Some b \<Rightarrow> b);
               r = writeFields (bigNumber d') (sd_fields d') data offset' na' buf'
           in (fst r, snd r, d')))"

section \<open>The record view\<close>

text \<open>
  Loose equality of \<open>assert.equal\<close>, where the left value has just been read from the
  buffer: two Buffers (or two arbitrary-precision values) are then distinct objects, and a
  Buffer compared with a string is compared through its text. \<open>None\<close>: a comparison the
  embedding does not cover.
\<close>

fun js_eq :: "jsval \<Rightarrow> jsval \<Rightarrow> bool option" where
  "js_eq (Num a) (Num b) = Some (a = b)"
| "js_eq (Num a) PosInf = Some False"
| "js_eq (Num a) NegInf = Some False"
| "js_eq PosInf (Num b) = Some False"
| "js_eq NegInf (Num b) = Some False"
| "js_eq PosInf PosInf = Some True"
| "js_eq NegInf NegInf = Some True"
| "js_eq PosInf NegInf = Some False"
| "js_eq NegInf PosInf = Some False"
| "js_eq (Str a) (Str b) = Some (a = b)"
| "js_eq (Buf a) (Buf b) = Some False"
| "js_eq (Big a) (Big b) = Some False"
| "js_eq (Buf a) (Big b) = Some False"
| "js_eq (Big a) (Buf b) = Some False"
| "js_eq (Str a) (Buf b) = (case utf8_decode b of Inl e \<Rightarrow> None | Inr t \<Rightarrow> Some (a = t))"
| "js_eq (Buf a) (Str b) = (case utf8_decode a of Inl e \<Rightarrow> None | Inr t \<Rightarrow> Some (t = b))"
| "js_eq Undefined Undefined = Some True"
| "js_eq Undefined Null = Some True"
| "js_eq Null Undefined = Some True"
| "js_eq Null Null = Some True"
| "js_eq Undefined (Boolean b) = Some False"
| "js_eq Undefined (Num b) = Some False"
| "js_eq Undefined PosInf = Some False"
| "js_eq Undefined NegInf = Some False"
| "js_eq Undefined (Big b) = Some False"
| "js_eq Undefined (Str b) = Some False"
| "js_eq Undefined (Buf b) = Some False"
| "js_eq _ _ = None"

definition wrapper_get :: "field \<Rightarrow> buffer \<Rightarrow> error + jsval" where
  "wrapper_get f buf =
     (if f_codec f then field_read f None buf (f_offset f) False else Inr Undefined)"

definition wrapper_set :: "bool \<Rightarrow> field \<Rightarrow> jsval \<Rightarrow> buffer \<Rightarrow> error option \<times> buffer" where
  "wrapper_set bn f v buf =
     (if f_codec f then field_write bn f v (f_offset f) False buf else (None, buf))"

fun checkFields :: "field list \<Rightarrow> buffer \<Rightarrow> error option" where
  "checkFields [] buf = None"
| "checkFields (f # fs) buf =
     (case f_value f of
        None \<Rightarrow> checkFields fs buf
      | Some v \<Rightarrow>
          (case wrapper_get f buf of
             Inl e \<Rightarrow> Some e
           | Inr got \<Rightarrow>
               (case js_eq got v of
                  None \<Rightarrow> Some Unmodelled
                | Some False \<Rightarrow> Some (AssertionError (key_of (f_name f)))
                | Some True \<Rightarrow> checkFields fs buf)))"

definition checkValues :: "structdef \<Rightarrow> buffer \<Rightarrow> error option" where
  "checkValues d buf = checkFields (sd_fields d) buf"

fun writeDefaults :: "bool \<Rightarrow> field list \<Rightarrow> buffer \<Rightarrow> error option \<times> buffer" where
  "writeDefaults bn [] buf = (None, buf)"
| "writeDefaults bn (f # fs) buf =
     (case f_value f of
        None \<Rightarrow> writeDefaults bn fs buf
      | Some v \<Rightarrow>
          (case wrapper_set bn f v buf of
             (Some e, b) \<Rightarrow> (Some e, b)
           | (None, b) \<Rightarrow> writeDefaults bn fs b))"

definition writeValues :: "structdef \<Rightarrow> buffer \<Rightarrow> error option \<times> buffer" where
  "writeValues d buf = writeDefaults (bigNumber d) (sd_fields d) buf"

section \<open>Example fields\<close>

text \<open>A two-byte text field at offset 0 with the default \<open>"ab"\<close>.\<close>

definition text2 :: field where
  "text2 = \<lparr> f_name = Named ''s'', f_type = StringT, f_size = 2,
      f_offset = 0, f_codec = True, f_value = Some (Buf [97, 98]), f_sizeFieldName = None,
      f_int64mode = None \<rparr>"

section \<open>Layout\<close>

text \<open>
  \<open>laid_out base fs\<close>: the offsets of \<open>fs\<close> run from \<open>base\<close>, each field starting where
  the one before it ends.
\<close>

fun laid_out :: "nat \<Rightarrow> field list \<Rightarrow> bool" where
  "laid_out base [] = True"
| "laid_out base (f # fs) = (f_offset f = base \<and> laid_out (base + f_size f) fs)"

definition total_size :: "field list \<Rightarrow> nat" where
  "total_size fs = sum_list (map f_size fs)"

text \<open>
  What the definers guarantee of a field, and of a schema: a field without a deferred
  size has its codec, a number field has the size of its type, no field has a 64-bit
  mode of its own, only number fields are unnamed; the fields of a schema are laid out
  from 0, their names differ, and the arbitrary-precision module is loaded when the
  schema's 64-bit mode is int64.
\<close>

definition wf_field :: "field \<Rightarrow> bool" where
  "wf_field f =
     ((f_sizeFieldName f = None \<longrightarrow> f_codec f)
      \<and> f_int64mode f = None
      \<and> (case f_type f of
            IntT n sg le \<Rightarrow> f_size f = n \<and> (n = 1 \<or> n = 2 \<or> n = 4)
          | Int64T sg le \<Rightarrow> f_size f = 8
          | FloatT n dec enc \<Rightarrow> f_size f = n
          | StringT \<Rightarrow> True
          | BufferT \<Rightarrow> True)
      \<and> (case f_name f of
            Named s \<Rightarrow> True
          | Positional k \<Rightarrow> f_type f \<noteq> StringT \<and> f_type f \<noteq> BufferT))"

definition built :: "structdef \<Rightarrow> bool" where
  "built d =
     (laid_out 0 (sd_fields d)
      \<and> sd_size d = total_size (sd_fields d)
      \<and> list_all wf_field (sd_fields d)
      \<and> distinct (map f_name (sd_fields d))
      \<and> (sd_int64mode d = int64 \<longrightarrow> bigNumber d)
      \<and> (staticSized d \<longrightarrow> list_all (\<lambda>f. f_sizeFieldName f = None) (sd_fields d)))"

text \<open>The field a text or block definer starts from.\<close>

definition fresh_field :: "string \<Rightarrow> ftype \<Rightarrow> field" where
  "fresh_field nm ty = \<lparr> f_name = Named nm, f_type = ty, f_size = 0, f_offset = 0,
                f_codec = False, f_value = None, f_sizeFieldName = None,
                f_int64mode = None \<rparr>"

text \<open>
  The schema of an unsigned 16-bit field \<open>len\<close> and a text field \<open>name\<close> whose size is
  deferred to \<open>len\<close>, as the definers register it.
\<close>

definition len_name_schema :: structdef where
  "len_name_schema =
     \<lparr>sd_fields =
        [\<lparr>f_name = Named ''len'', f_type = IntT 2 False False, f_size = 2,
            f_offset = 0, f_codec = True, f_value = None,
            f_sizeFieldName = None, f_int64mode = None\<rparr>,
         \<lparr>f_name = Named ''name'', f_type = StringT, f_size = 0,
            f_offset = 2, f_codec = False, f_value = None,
            f_sizeFieldName = Some ''len'', f_int64mode = None\<rparr>],
        staticSized = False, sd_size = 2, littleEndian = False,
        noAssert = False, sd_int64mode = strict,
        props = [(''name'', True), (''len'', False)], bigNumber = False\<rparr>"

text \<open>The same schema with a byte \<open>tail\<close> declared after the deferred field.\<close>

definition len_name_tail_schema :: structdef where
  "len_name_tail_schema =
     \<lparr>sd_fields =
        [\<lparr>f_name = Named ''len'', f_type = IntT 2 False False, f_size = 2,
            f_offset = 0, f_codec = True, f_value = None,
            f_sizeFieldName = None, f_int64mode = None\<rparr>,
         \<lparr>f_name = Named ''name'', f_type = StringT, f_size = 0,
            f_offset = 2, f_codec = False, f_value = None,
            f_sizeFieldName = Some ''len'', f_int64mode = None\<rparr>,
         \<lparr>f_name = Named ''tail'', f_type = IntT 1 False False, f_size = 1,
            f_offset = 2, f_codec = True, f_value = None,
            f_sizeFieldName = None, f_int64mode = None\<rparr>],
        staticSized = False, sd_size = 3, littleEndian = False,
        noAssert = False, sd_int64mode = strict,
        props = [(''tail'', False), (''name'', True), (''len'', False)],
        bigNumber = False\<rparr>"

section \<open>What pack writes, in words\<close>




section \<open>Values that fit a fixed-size schema\<close>

definition in_type_range :: "bool \<Rightarrow> nat \<Rightarrow> int \<Rightarrow> bool" where
  "in_type_range sg n v =
     (if sg then - (2 ^ (8 * n - 1)) \<le> v \<and> v < 2 ^ (8 * n - 1)
      else 0 \<le> v \<and> v < 2 ^ (8 * n))"







section \<open>Example schemas\<close>







section \<open>Bytes and numbers\<close>

lemma be_value_snoc: "be_value (bs @ [b]) = be_value bs * 256 + uint b"
  by (simp add: be_value_def)

lemma be_value_append: "be_value (xs @ ys) = be_value xs * 256 ^ length ys + be_value ys"
proof (induction ys rule: rev_induct)
  case Nil
  then show ?case by (simp add: be_value_def)
next
  case (snoc y ys)
  have "be_value ((xs @ ys) @ [y]) = be_value (xs @ ys) * 256 + uint y"
    by (rule be_value_snoc)
  then show ?case using snoc by (simp add: be_value_snoc algebra_simps)
qed

lemma be_value_nonneg: "0 \<le> be_value bs"
proof (induction bs rule: rev_induct)
  case Nil
  then show ?case by (simp add: be_value_def)
next
  case (snoc b bs)
  then show ?case by (simp add: be_value_snoc)
qed

lemma be_value_bound: "be_value bs < 256 ^ length bs"
proof (induction bs rule: rev_induct)
  case Nil
  then show ?case by (simp add: be_value_def)
next
  case (snoc b bs)
  have "uint b < 256" using uint_bounded [of b] by simp
  moreover have "be_value bs + 1 \<le> 256 ^ length bs" using snoc by simp
  then have "(be_value bs + 1) * 256 \<le> 256 ^ length bs * 256"
    by (rule mult_right_mono) simp
  ultimately show ?case by (simp add: be_value_snoc algebra_simps)
qed

lemma bytes_uint_range:
  "length bs = 4 \<Longrightarrow> 0 \<le> bytes_uint le bs \<and> bytes_uint le bs < 4294967296"
proof (cases le)
  case True
  assume "length bs = 4"
  then show ?thesis
    using True be_value_nonneg [of "rev bs"] be_value_bound [of "rev bs"]
    by (simp add: bytes_uint_def)
next
  case False
  assume "length bs = 4"
  then show ?thesis
    using False be_value_nonneg [of bs] be_value_bound [of bs]
    by (simp add: bytes_uint_def)
qed

lemma slice_split:
  "slice_bytes buf off 8 = slice_bytes buf off 4 @ slice_bytes buf (off + 4) 4"
proof -
  have "take (4 + 4) (drop off buf) = take 4 (drop off buf) @ take 4 (drop 4 (drop off buf))"
    by (rule take_add)
  then show ?thesis by (simp add: slice_bytes_def add.commute)
qed

lemma slice_length: "in_range buf off n \<Longrightarrow> length (slice_bytes buf off n) = n"
  by (auto simp: in_range_def slice_bytes_def)

section \<open>The 64-bit reader\<close>

lemma and_not_mask_zero: "(w AND NOT (mask n) = 0) = (w AND mask n = w)"
  for w :: "'a::len word"
  by (auto simp add: bit_eq_iff bit_and_iff bit_not_iff bit_mask_iff)

lemma uint_wi32: "0 \<le> h \<Longrightarrow> h < 4294967296 \<Longrightarrow> uint (word_of_int h :: 32 word) = h"
  by (simp add: uint_word_of_int take_bit_eq_mod)

lemma hi_mask_zero:
  assumes "0 \<le> h" "h < 4294967296"
  shows "js_and (word_of_int h) 0xFFF00000 = 0 \<longleftrightarrow> h < 1048576"
proof -
  have m: "(0xFFF00000 :: 32 word) = NOT (mask 20)" by (simp add: mask_eq_exp_minus_1)
  have "js_and (word_of_int h) 0xFFF00000 = 0
          \<longleftrightarrow> (word_of_int h :: 32 word) AND NOT (mask 20) = 0"
    unfolding js_and_def m by (simp add: signed_eq_0_iff)
  also have "\<dots> \<longleftrightarrow> uint (word_of_int h :: 32 word) < 2 ^ 20"
    by (simp only: and_not_mask_zero mask_eq_iff)
  also have "\<dots> \<longleftrightarrow> h < 1048576" using assms by (simp add: uint_wi32)
  finally show ?thesis .
qed

lemma hi_sign_zero:
  assumes "0 \<le> h" "h < 4294967296"
  shows "js_and (word_of_int h) 0x80000000 = 0 \<longleftrightarrow> h < 2147483648"
proof -
  have m: "(0x80000000 :: 32 word) = NOT (mask 31)" by (simp add: mask_eq_exp_minus_1)
  have "js_and (word_of_int h) 0x80000000 = 0
          \<longleftrightarrow> (word_of_int h :: 32 word) AND NOT (mask 31) = 0"
    unfolding js_and_def m by (simp add: signed_eq_0_iff)
  also have "\<dots> \<longleftrightarrow> uint (word_of_int h :: 32 word) < 2 ^ 31"
    by (simp only: and_not_mask_zero mask_eq_iff)
  also have "\<dots> \<longleftrightarrow> h < 2147483648" using assms by (simp add: uint_wi32)
  finally show ?thesis .
qed

text \<open>
  The comparison \<open>lostBits !== 0xFFF00000\<close> always holds: the left side is a signed
  32-bit number, the right side is 4293918720.
\<close>

lemma lost_ne_literal: "js_and a b \<noteq> 4293918720"
proof -
  have "sint (a AND b) < 2 ^ (LENGTH(32) - 1)" by (rule sint_lt)
  then show ?thesis by (simp add: js_and_def)
qed

lemma halves_value:
  assumes "in_range buf off 8"
  shows "bytes_uint le (slice_bytes buf off 8)
           = fst (halves le buf off) * 4294967296 + snd (halves le buf off)"
proof -
  have r4: "in_range buf (off + 4) 4" "in_range buf off 4"
    using assms by (auto simp: in_range_def)
  have l: "length (slice_bytes buf (off + 4) 4) = 4" "length (slice_bytes buf off 4) = 4"
    using r4 by (simp_all add: slice_length)
  show ?thesis
    by (simp add: halves_def bytes_uint_def slice_split be_value_append l)
qed

lemma halves_range:
  assumes "in_range buf off 8"
  shows "0 \<le> fst (halves le buf off) \<and> fst (halves le buf off) < 4294967296
       \<and> 0 \<le> snd (halves le buf off) \<and> snd (halves le buf off) < 4294967296"
proof -
  have r4: "in_range buf (off + 4) 4" "in_range buf off 4"
    using assms by (auto simp: in_range_def)
  have l: "length (slice_bytes buf (off + 4) 4) = 4" "length (slice_bytes buf off 4) = 4"
    using r4 by (simp_all add: slice_length)
  show ?thesis
    using bytes_uint_range [OF l(1), of True] bytes_uint_range [OF l(2), of True]
      bytes_uint_range [OF l(1), of False] bytes_uint_range [OF l(2), of False]
    by (simp add: halves_def)
qed

lemma read_lossy:
  assumes r: "in_range buf off 8"
    and m: "fm = Some lossy \<or> (fm = None \<and> dm = Some lossy)"
  shows "readInt64AsNumber sg le fm dm buf off na =
     (let hi = fst (halves le buf off); lo = snd (halves le buf off) in
      if hi \<ge> 1048576 then (if \<not> sg \<or> hi < 2147483648 then Inr PosInf else Inr NegInf)
      else Inr (Num (js_or (js_shl (js_and (word_of_int hi) 0x001FFFFF) 32)
                           (js_and (word_of_int lo) 0xFFFFFFFF))))"
proof -
  have r4: "in_range buf (off + 4) 4" "in_range buf off 4"
    using r by (auto simp: in_range_def)
  have b: "\<not> (\<not> na \<and> off + 8 > length buf)" using r by (auto simp: in_range_def)
  note hr = halves_range [OF r, of le]
  have z: "js_and (word_of_int (fst (halves le buf off))) 0xFFF00000 = 0
             \<longleftrightarrow> fst (halves le buf off) < 1048576"
    using hr by (intro hi_mask_zero) auto
  have s: "js_and (word_of_int (fst (halves le buf off))) 0x80000000 = 0
             \<longleftrightarrow> fst (halves le buf off) < 2147483648"
    using hr by (intro hi_sign_zero) auto
  show ?thesis
  proof (cases le)
    case True
    then show ?thesis using m z s b r4
      by (auto simp: readInt64AsNumber_def readInt_def halves_def Let_def lost_ne_literal)
  next
    case False
    then show ?thesis using m z s b r4
      by (auto simp: readInt64AsNumber_def readInt_def halves_def Let_def lost_ne_literal)
  qed
qed

text \<open>
  C2. Strict mode, big-endian 64-bit field: the bit pattern of \<open>2^53\<close> raises the
  overflow error, and so does the bit pattern of \<open>2^53 - 1\<close>, whatever the signedness.
  The mask \<open>0xFFF00000\<close> leaves 20 bits of the high half, one fewer than the 21 the
  source's comment counts.
\<close>

theorem strict_int64_boundary:
  "readInt64AsNumber sg False None (Some strict) [0, 0x20, 0, 0, 0, 0, 0, 0] 0 False
     = Inl OverflowError
   \<and> readInt64AsNumber sg False None (Some strict)
       [0, 0x1F, 0xFF, 0xFF, 0xFF, 0xFF, 0xFF, 0xFF] 0 False = Inl OverflowError"
  by (cases sg)
    (simp_all add: readInt64AsNumber_def readInt_def in_range_def slice_bytes_def
      bytes_uint_def be_value_def js_and_def)

theorem strict_int64_boundary_witness:
  "readInt64AsNumber False False None (Some strict) [0, 0x20, 0, 0, 0, 0, 0, 0] 0 False
     = Inl OverflowError
   \<and> readInt64AsNumber False False None (Some strict)
       [0, 0x1F, 0xFF, 0xFF, 0xFF, 0xFF, 0xFF, 0xFF] 0 False = Inl OverflowError"
  by (rule strict_int64_boundary)

text \<open>
  C7. Lossy mode: a 64-bit pattern whose value is beyond \<open>2^53 - 1\<close> in magnitude
  decodes to \<open>+Infinity\<close> when the field is unsigned or the value is positive, and to
  \<open>-Infinity\<close> when the field is signed and the value negative. The value of the pattern
  is \<open>u\<close> read unsigned, and \<open>u - 2^64\<close> read signed when the top bit is set.
\<close>

theorem lossy_int64_overflow:
  assumes "in_range buf off 8"
    and "fm = Some lossy \<or> (fm = None \<and> dm = Some lossy)"
    and "u = bytes_uint le (slice_bytes buf off 8)"
  shows "(\<not> sg \<and> u \<ge> 2 ^ 53 \<longrightarrow>
            readInt64AsNumber sg le fm dm buf off na = Inr PosInf)
       \<and> (sg \<and> u < 2 ^ 63 \<and> u \<ge> 2 ^ 53 \<longrightarrow>
            readInt64AsNumber sg le fm dm buf off na = Inr PosInf)
       \<and> (sg \<and> u \<ge> 2 ^ 63 \<and> u - 2 ^ 64 \<le> - (2 ^ 53) \<longrightarrow>
            readInt64AsNumber sg le fm dm buf off na = Inr NegInf)"
proof -
  define hi where "hi = fst (halves le buf off)"
  define lo where "lo = snd (halves le buf off)"
  have v: "u = hi * 4294967296 + lo"
    using halves_value [OF assms(1), of le] assms(3) by (simp add: hi_def lo_def)
  have rg: "0 \<le> hi" "hi < 4294967296" "0 \<le> lo" "lo < 4294967296"
    using halves_range [OF assms(1), of le] by (simp_all add: hi_def lo_def)
  have big: "u \<ge> 2 ^ 53 \<Longrightarrow> hi \<ge> 1048576" using v rg by simp
  have pos: "u < 2 ^ 63 \<Longrightarrow> hi < 2147483648" using v rg by simp
  have neg: "u \<ge> 2 ^ 63 \<Longrightarrow> hi \<ge> 2147483648" using v rg by simp
  note rd = read_lossy [OF assms(1) assms(2), where le = le, folded hi_def lo_def]
  show ?thesis
  proof (intro conjI impI)
    assume "\<not> sg \<and> u \<ge> 2 ^ 53"
    then show "readInt64AsNumber sg le fm dm buf off na = Inr PosInf"
      using big by (simp add: rd Let_def)
  next
    assume "sg \<and> u < 2 ^ 63 \<and> u \<ge> 2 ^ 53"
    then show "readInt64AsNumber sg le fm dm buf off na = Inr PosInf"
      using big pos by (simp add: rd Let_def)
  next
    assume "sg \<and> u \<ge> 2 ^ 63 \<and> u - 2 ^ 64 \<le> - (2 ^ 53)"
    then show "readInt64AsNumber sg le fm dm buf off na = Inr NegInf"
      using neg by (simp add: rd Let_def)
  qed
qed

theorem lossy_int64_overflow_witness:
  "readInt64AsNumber False False None (Some lossy) [0, 0x20, 0, 0, 0, 0, 0, 0] 0 False
     = Inr PosInf
   \<and> readInt64AsNumber True False None (Some lossy) [0, 0x20, 0, 0, 0, 0, 0, 0] 0 False
     = Inr PosInf
   \<and> readInt64AsNumber True False None (Some lossy) [0xFF, 0xE0, 0, 0, 0, 0, 0, 0] 0 False
     = Inr NegInf"
proof -
  have r: "in_range [0, 0x20, 0, 0, 0, 0, 0, 0 :: byte] 0 8"
    "in_range [0xFF, 0xE0, 0, 0, 0, 0, 0, 0 :: byte] 0 8"
    by (simp_all add: in_range_def)
  have m: "None = Some lossy \<or> (None = None \<and> Some lossy = Some lossy)" by simp
  have u1: "bytes_uint False (slice_bytes [0, 0x20, 0, 0, 0, 0, 0, 0 :: byte] 0 8) = 2 ^ 53"
    by (simp add: bytes_uint_def slice_bytes_def be_value_def)
  have u2: "bytes_uint False (slice_bytes [0xFF, 0xE0, 0, 0, 0, 0, 0, 0 :: byte] 0 8)
              = 2 ^ 64 - 2 ^ 53"
    by (simp add: bytes_uint_def slice_bytes_def be_value_def)
  show ?thesis
    using lossy_int64_overflow [OF r(1) m u1 [symmetric], of False False]
      lossy_int64_overflow [OF r(1) m u1 [symmetric], of True False]
      lossy_int64_overflow [OF r(2) m u2 [symmetric], of True False]
    by simp
qed

section \<open>Evaluating the codecs\<close>

lemma be_bytes_num [simp]:
  "be_bytes 1 v = [word_of_int v]"
  "be_bytes 2 v = [word_of_int (v div 256), word_of_int v]"
  "be_bytes 4 v = [word_of_int (v div 256 div 256 div 256), word_of_int (v div 256 div 256),
                   word_of_int (v div 256), word_of_int v]"
  by (simp_all add: eval_nat_numeral)

text \<open>Text: well-formed byte sequences, and the strings of 7-bit characters among them.\<close>

lemma utf8_valid_Nil [simp]: "utf8_valid []"
  by (simp add: utf8_valid.simps)

lemma utf8_char_low: "b < 0x80 \<Longrightarrow> utf8_char (b # bs) = 1"
  by (simp add: utf8_char_def)

lemma utf8_valid_low: "b < 0x80 \<Longrightarrow> utf8_valid (b # bs) = utf8_valid bs"
  by (subst utf8_valid.simps) (simp add: utf8_char_low)

lemma utf8_fit_low:
  "b < 0x80 \<Longrightarrow> utf8_fit room (b # bs) = (if room = 0 then [] else b # utf8_fit (room - 1) bs)"
  by (subst utf8_fit.simps) (auto simp add: utf8_char_low)

lemma utf8_fit_Nil [simp]: "utf8_fit room [] = []"
  by (simp add: utf8_fit.simps utf8_char_def)

lemma utf16_length_low: "b < 0x80 \<Longrightarrow> utf16_length (b # bs) = Suc (utf16_length bs)"
  by (subst utf16_length.simps) (simp add: utf8_char_low)

lemma utf16_length_Nil [simp]: "utf16_length [] = 0"
  by (simp add: utf16_length.simps utf8_char_def)

lemma utf8_valid_lows: "list_all (\<lambda>b. b < 0x80) bs \<Longrightarrow> utf8_valid bs"
  by (induction bs) (simp_all add: utf8_valid_low)

lemma utf8_fit_lows: "list_all (\<lambda>b. b < 0x80) bs \<Longrightarrow> utf8_fit room bs = take room bs"
  by (induction bs arbitrary: room) (auto simp add: utf8_fit_low take_Cons')

lemma utf16_length_lows: "list_all (\<lambda>b. b < 0x80) bs \<Longrightarrow> utf16_length bs = length bs"
  by (induction bs) (simp_all add: utf16_length_low)

lemma encode_ascii_low: "ascii s \<Longrightarrow> list_all (\<lambda>b. b < 0x80) (utf8_encode s)"
  by (induction s)
   (auto simp add: ascii_def utf8_encode_def word_less_nat_alt unat_of_nat take_bit_eq_mod)

lemma well_formed_ascii: "ascii s \<Longrightarrow> well_formed s"
  by (simp add: well_formed_def utf8_valid_lows encode_ascii_low)

lemma decode_bytes_encode: "map (\<lambda>b. char_of (unat b)) (utf8_encode s) = s"
  by (induction s) (simp_all add: utf8_encode_def unat_of_nat take_bit_eq_mod)

lemma utf8_decode_encode_wf: "well_formed s \<Longrightarrow> utf8_decode (utf8_encode s) = Inr s"
  by (simp add: utf8_decode_def well_formed_def decode_bytes_encode)



lemma copy_into_take:
  "copy_into (take (length buf - off) src) buf off = copy_into src buf off"
  by (simp add: copy_into_def min_def)

lemma buf_write_ascii:
  assumes "ascii s"
  shows "buf_write buf s offset =
     (if s \<noteq> [] \<and> offset > length buf then (Some RangeError, buf)
      else (None, copy_into (utf8_encode s) buf offset))"
proof -
  have "copy_into (utf8_fit (length buf - offset) (utf8_encode s)) buf offset
          = copy_into (utf8_encode s) buf offset"
    by (simp add: utf8_fit_lows [OF encode_ascii_low [OF assms]] copy_into_take)
  then show ?thesis by (simp add: buf_write_def well_formed_ascii [OF assms] utf8_encode_def)
qed

lemma utf8_decode_encode: "ascii s \<Longrightarrow> utf8_decode (utf8_encode s) = Inr s"
  by (rule utf8_decode_encode_wf [OF well_formed_ascii])

lemma length_utf8_encode [simp]: "length (utf8_encode s) = length s"
  by (simp add: utf8_encode_def)

lemmas codec_defs = field_read_def field_write_def readInt_def writeInt_def write_at_def
  copy_into_def in_range_def slice_bytes_def int_bytes_def bytes_uint_def be_value_def
  readString_def writeString_def fill_zero_def buf_write_ascii ascii_def utf8_encode_def
  readbuffer_def writebuffer_def

lemmas schema_defs = StructDef_def defineIntField_def defineStringField_def
  defineBufferField_def field_def reserved_def Let_def

lemma decode_hello: "utf8_decode [104, 101, 108, 108, 111] = Inr ''hello''"
  by code_simp

lemma build_len_name:
  assumes "endian \<noteq> Some True"
  shows "build (StructDef False None)
           [DInt B16 False endian [Str ''len''], DString ''name'' (Str ''len'')]
         = Inr len_name_schema"
  using assms by (cases endian) (simp_all add: len_name_schema_def schema_defs)

text \<open>
  C4. A schema with an unsigned 16-bit field \<open>len\<close> (in either byte order, or the
  schema's default one) followed by a text field \<open>name\<close> whose size refers to \<open>len\<close>:
  packing \<open>{len: 5, name: "hello"}\<close> raises nothing and gives a buffer of 2 + 5 bytes,
  and unpacking that buffer, with the schema as \<open>pack\<close> left it or as it was built,
  gives \<open>{len: 5, name: "hello"}\<close>.
\<close>

theorem variable_text_example:
  "\<exists>d b d' d'' d'''.
     build (StructDef False None)
           [DInt B16 False endian [Str ''len''], DString ''name'' (Str ''len'')] = Inr d
   \<and> pack d [''len'' \<mapsto> Num 5, ''name'' \<mapsto> Str ''hello''] None None None = (None, b, d')
   \<and> length b = 2 + 5
   \<and> unpack d' b None None = Inr ([''len'' \<mapsto> Num 5, ''name'' \<mapsto> Str ''hello''], d'')
   \<and> unpack d b None None = Inr ([''len'' \<mapsto> Num 5, ''name'' \<mapsto> Str ''hello''], d''')"
proof (cases "endian = Some True")
  case False
  show ?thesis
    unfolding build_len_name [OF False] len_name_schema_def
    by (simp add: pack_def resolve_pack_def resolve_def find_index_def pack_value_def
        unpack_def readField_def upt_rec decode_hello codec_defs schema_defs)
next
  case True
  show ?thesis
    unfolding True
    by (simp add: pack_def resolve_pack_def resolve_def find_index_def pack_value_def
        unpack_def readField_def upt_rec decode_hello codec_defs schema_defs)
qed

theorem variable_text_example_witness:
  "\<exists>d b d' d'' d'''.
     build (StructDef False None)
           [DInt B16 False None [Str ''len''], DString ''name'' (Str ''len'')] = Inr d
   \<and> pack d [''len'' \<mapsto> Num 5, ''name'' \<mapsto> Str ''hello''] None None None = (None, b, d')
   \<and> length b = 2 + 5
   \<and> unpack d' b None None = Inr ([''len'' \<mapsto> Num 5, ''name'' \<mapsto> Str ''hello''], d'')
   \<and> unpack d b None None = Inr ([''len'' \<mapsto> Num 5, ''name'' \<mapsto> Str ''hello''], d''')"
  by (rule variable_text_example)

section \<open>Writers\<close>

lemma copy_into_span:
  "off + length src \<le> length buf \<Longrightarrow>
     copy_into src buf off = take off buf @ src @ drop (off + length src) buf"
  by (auto simp: copy_into_def min_def)

lemma length_copy_into [simp]: "length (copy_into src buf off) = length buf"
  by (auto simp: copy_into_def min_def)

lemma fill_zero_span:
  "start + n \<le> length buf \<Longrightarrow>
     fill_zero buf start (start + n) = (None, take start buf @ replicate n 0 @ drop (start + n) buf)"
  by (auto simp: fill_zero_def copy_into_span)

text \<open>
  C5. A text value longer than the field is written whole, as far as the buffer reaches:
  \<open>writeString\<close> zero-fills the field's \<open>sz\<close> bytes and then calls \<open>write(val, offset)\<close>
  with no length, so the bytes from \<open>offset + sz\<close> on, which lie past the field, take
  the bytes of the string.
\<close>

theorem text_write_overruns_field:
  assumes "ascii s" and "sz < length s" and "offset + length s \<le> length buf"
  shows "writeString sz (Str s) offset na buf
           = (None, take offset buf @ utf8_encode s @ drop (offset + length s) buf)
       \<and> snd (writeString sz (Str s) offset na buf) ! (offset + sz) = utf8_encode s ! sz"
proof -
  let ?b = "take offset buf @ replicate sz 0 @ drop (offset + sz) buf"
  have f: "fill_zero buf offset (offset + sz) = (None, ?b)"
    using assms by (intro fill_zero_span) simp
  have l: "offset + length (utf8_encode s) \<le> length ?b" using assms by simp
  have w: "buf_write ?b s offset = (None, copy_into (utf8_encode s) ?b offset)"
    using assms by (simp add: buf_write_ascii)
  have c: "copy_into (utf8_encode s) ?b offset
             = take offset buf @ utf8_encode s @ drop (offset + length s) buf"
    using assms by (simp add: copy_into_span [OF l] add.commute)
  have r: "writeString sz (Str s) offset na buf
             = (None, take offset buf @ utf8_encode s @ drop (offset + length s) buf)"
    by (simp add: writeString_def f w c)
  have "(take offset buf @ utf8_encode s @ drop (offset + length s) buf) ! (offset + sz)
          = utf8_encode s ! sz"
    using assms by (simp add: nth_append)
  with r show ?thesis by simp
qed

theorem text_write_overruns_field_witness:
  "writeString 2 (Str ''hello'') 0 False (replicate 8 1)
     = (None, [104, 101, 108, 108, 111, 1, 1, 1])
   \<and> snd (writeString 2 (Str ''hello'') 0 False (replicate 8 1)) ! 2 = 108"
proof -
  have a: "ascii ''hello''" by (simp add: ascii_def)
  have b: "2 < length ''hello''" by simp
  have c: "0 + length ''hello'' \<le> length (replicate 8 (1 :: byte))" by simp
  have e: "utf8_encode ''hello'' = [104, 101, 108, 108, 111]" by (simp add: utf8_encode_def)
  have d: "replicate 3 (1 :: byte) = [1, 1, 1]" "replicate 8 (1 :: byte) = [1, 1, 1, 1, 1, 1, 1, 1]"
    by (simp_all add: eval_nat_numeral)
  show ?thesis
    using text_write_overruns_field [OF a b c, of False] by (simp add: e d(1))
qed

text \<open>
  C8. Writing a Buffer whose length differs from the declared size to a block or text
  field raises the size-mismatch error and leaves the destination buffer as it was.
\<close>

theorem wrong_size_block_refused:
  assumes "length b \<noteq> sz"
  shows "writebuffer sz (Buf b) offset na buf = (Some SizeMismatchError, buf)
       \<and> writeString sz (Buf b) offset na buf = (Some SizeMismatchError, buf)
       \<and> (f_size f = sz \<and> (f_type f = StringT \<or> f_type f = BufferT) \<longrightarrow>
            field_write bn f (Buf b) offset na buf = (Some SizeMismatchError, buf))"
  using assms by (auto simp: writebuffer_def writeString_def field_write_def)

theorem wrong_size_block_refused_witness:
  "writebuffer 4 (Buf [1, 2, 3]) 1 False [9, 9, 9, 9, 9, 9]
     = (Some SizeMismatchError, [9, 9, 9, 9, 9, 9])
   \<and> writeString 4 (Buf [1, 2, 3]) 1 False [9, 9, 9, 9, 9, 9]
     = (Some SizeMismatchError, [9, 9, 9, 9, 9, 9])"
proof -
  have "length [1, 2, 3 :: byte] \<noteq> 4" by simp
  from wrong_size_block_refused [OF this, of 1 False "[9, 9, 9, 9, 9, 9]"]
  show ?thesis by simp
qed

text \<open>
  C10. When \<open>data\<close> binds the field's key to a falsy value (0, the empty string, null or
  false), \<open>pack\<close> passes the number 0 to the field's writer; for a text or block field
  the writer then leaves the buffer unchanged and raises nothing, so \<open>pack\<close> goes on
  with the next field on the same buffer.
\<close>

theorem falsy_value_becomes_zero:
  assumes "data (key_of (f_name f)) = Some v"
    and "v = Num 0 \<or> v = Str [] \<or> v = Null \<or> v = Boolean False"
  shows "pack_value data f = Num 0
       \<and> (f_type f = StringT \<or> f_type f = BufferT \<longrightarrow>
            field_write bn f (pack_value data f) offset na buf = (None, buf))
       \<and> (f_type f = StringT \<or> f_type f = BufferT \<longrightarrow>
            writeFields bn (f # fs) data offset na buf = writeFields bn fs data offset na buf)"
proof -
  have p: "pack_value data f = Num 0" using assms by (auto simp: pack_value_def)
  have w: "f_type f = StringT \<or> f_type f = BufferT \<Longrightarrow>
             field_write bn f (Num 0) k na buf = (None, buf)" for k
    by (auto simp: field_write_def writeString_def writebuffer_def)
  show ?thesis using p w by auto
qed

theorem falsy_value_becomes_zero_witness:
  "pack_value [''s'' \<mapsto> Str []] text2 = Num 0
   \<and> writeFields False [text2] [''s'' \<mapsto> Str []] 0 False [7, 7] = (None, [7, 7])"
proof -
  have a: "[''s'' \<mapsto> Str []] (key_of (f_name text2)) = Some (Str [])"
    by (simp add: text2_def)
  have b: "Str [] = Num 0 \<or> Str [] = Str [] \<or> Str [] = Null \<or> Str [] = Boolean False"
    by simp
  have t: "f_type text2 = StringT" by (simp add: text2_def)
  from falsy_value_becomes_zero [where data = "[''s'' \<mapsto> Str []]" and f = text2
      and v = "Str []" and bn = False
      and offset = 0 and na = False and buf = "[7, 7]" and fs = "[]", OF a b] t
  show ?thesis by simp
qed

lemma build_block_default:
  assumes "nm \<notin> set reserved"
  shows "build (StructDef loaded os) [DBuffer nm (Buf b)]
           = Inr ((StructDef loaded os)
                \<lparr> sd_fields := [(fresh_field nm BufferT)
                      \<lparr> f_value := Some (Buf b), f_size := length b, f_codec := True \<rparr>],
                  sd_size := length b, props := [(nm, False)] \<rparr>)"
  using assms by (simp add: defineBufferField_def field_def fresh_field_def StructDef_def)

text \<open>
  C9. A schema whose only field is a block with a default value \<open>b\<close>, and a view of a
  buffer that holds the field: \<open>writeValues\<close> raises nothing and stores \<open>b\<close>, and
  \<open>checkValues\<close> on the same view then raises the assertion failure for the field,
  although the field holds its default: the getter returns a new Buffer object, which
  \<open>assert.equal\<close> does not take as equal to the default.
\<close>

theorem block_default_check_fails:
  assumes "nm \<notin> set reserved" and "length b \<le> length buf"
  shows "\<exists>d. build (StructDef loaded os) [DBuffer nm (Buf b)] = Inr d
           \<and> writeValues d buf = (None, b @ drop (length b) buf)
           \<and> checkValues d (b @ drop (length b) buf) = Some (AssertionError nm)"
proof -
  have c: "copy_into b buf 0 = b @ drop (length b) buf"
    using copy_into_span [of 0 b buf] assms(2) by simp
  have s: "slice_bytes (b @ drop (length b) buf) 0 (length b) = b"
    by (simp add: slice_bytes_def)
  show ?thesis
    unfolding build_block_default [OF assms(1)]
    using assms(2)
    by (simp add: writeValues_def checkValues_def wrapper_set_def wrapper_get_def
        field_write_def field_read_def writebuffer_def readbuffer_def fresh_field_def
        StructDef_def c s)
qed

theorem block_default_check_fails_witness:
  "\<exists>d. build (StructDef False None) [DBuffer ''magic'' (Buf [1, 2])] = Inr d
      \<and> writeValues d [0, 0] = (None, [1, 2])
      \<and> checkValues d [1, 2] = Some (AssertionError ''magic'')"
proof -
  have a: "''magic'' \<notin> set reserved" by (simp add: reserved_def)
  have b: "length [1, 2 :: byte] \<le> length [0, 0 :: byte]" by simp
  from block_default_check_fails [OF a b, of False None] show ?thesis by simp
qed

text \<open>
  A 64-bit field with a number as default fails too. While the BigNumber module is not
  loaded \<open>writeValues\<close> raises the TypeError of \<open>val instanceof BigNumber\<close>; once it is
  loaded the default \<open>2^32\<close> is stored as eight zero bytes (both \<open>val >> 32\<close> and
  \<open>val & 0xFFFFFFFF\<close> are 0) and \<open>checkValues\<close> raises the assertion failure.
\<close>

lemma int64_default_check_fails:
  "\<exists>d d'. build (StructDef False None) [DInt B64 sg endian [Str ''x'', Num 4294967296]] = Inr d
      \<and> writeValues d [0, 0, 0, 0, 0, 0, 0, 0] = (Some TypeError, [0, 0, 0, 0, 0, 0, 0, 0])
      \<and> build (StructDef True None) [DInt B64 sg endian [Str ''x'', Num 4294967296]] = Inr d'
      \<and> writeValues d' [0, 0, 0, 0, 0, 0, 0, 0] = (None, [0, 0, 0, 0, 0, 0, 0, 0])
      \<and> checkValues d' [0, 0, 0, 0, 0, 0, 0, 0] = Some (AssertionError ''x'')"
proof -
  have h: "js_sar 4294967296 32 = 0" "js_and (word_of_int 4294967296) 0xFFFFFFFF = 0"
    "js_and 4294967296 4294967295 = 0"
    by (simp_all add: js_sar_def js_and_def)
  have r: "readInt64AsNumber sg le None None [0, 0, 0, 0, 0, 0, 0, 0] 0 False = Inr (Num 0)"
    for le
    by (simp add: readInt64AsNumber_def js_and_def js_or_def js_shl_def codec_defs)
  have w: "writeInt64 True sg le (Num 4294967296) 0 False [0, 0, 0, 0, 0, 0, 0, 0]
             = (None, [0, 0, 0, 0, 0, 0, 0, 0])" for le
    by (simp add: writeInt64_def writeHalves_def h codec_defs)
  have t: "writeInt64 False sg le (Num 4294967296) 0 False [0, 0, 0, 0, 0, 0, 0, 0]
             = (Some TypeError, [0, 0, 0, 0, 0, 0, 0, 0])" for le
    by (simp add: writeInt64_def)
  show ?thesis
    by (cases endian)
      (simp_all add: writeValues_def checkValues_def wrapper_set_def wrapper_get_def
        field_read_def field_write_def r w t schema_defs)
qed

section \<open>Layout of a built schema\<close>

lemma laid_out_append:
  "laid_out base (fs @ [f]) = (laid_out base fs \<and> f_offset f = base + total_size fs)"
proof (induction fs arbitrary: base)
  case Nil
  show ?case by (simp add: total_size_def)
next
  case (Cons g gs)
  have "total_size (g # gs) = f_size g + total_size gs" by (simp add: total_size_def)
  then show ?case using Cons [of "base + f_size g"] by (simp add: add.assoc)
qed

lemma total_size_Cons [simp]: "total_size (g # gs) = f_size g + total_size gs"
  by (simp add: total_size_def)

lemma total_size_Nil [simp]: "total_size [] = 0"
  by (simp add: total_size_def)

lemma laid_out_nth:
  "laid_out base fs \<Longrightarrow> j < length fs \<Longrightarrow>
     f_offset (fs ! j) = base + total_size (take j fs)"
proof (induction fs arbitrary: base j)
  case Nil
  then show ?case by simp
next
  case (Cons f fs)
  show ?case
  proof (cases j)
    case 0
    with Cons.prems show ?thesis by simp
  next
    case (Suc k)
    with Cons.prems Cons.IH [of "base + f_size f" k] show ?thesis
      by simp
  qed
qed

lemma int_args_keeps:
  "int_args args f = Inr g \<Longrightarrow>
     f_type g = f_type f \<and> f_size g = f_size f \<and> f_codec g = f_codec f
     \<and> f_sizeFieldName g = f_sizeFieldName f \<and> f_offset g = f_offset f
     \<and> f_int64mode g = f_int64mode f
     \<and> (f_name g = f_name f \<or> (\<exists>s. f_name g = Named s))"
proof (induction args arbitrary: f)
  case Nil
  then show ?case by simp
next
  case (Cons a as)
  show ?case
  proof (cases "truthy a")
    case False
    with Cons show ?thesis by simp
  next
    case True
    show ?thesis
    proof (cases a)
      case (Buf b)
      with True Cons.prems have "int_args as (f\<lparr> f_value := Some a \<rparr>) = Inr g" by simp
      from Cons.IH [OF this] show ?thesis by simp
    next
      case (Num v)
      with True Cons.prems have "int_args as (f\<lparr> f_value := Some a \<rparr>) = Inr g" by simp
      from Cons.IH [OF this] show ?thesis by simp
    next
      case PosInf
      with True Cons.prems have "int_args as (f\<lparr> f_value := Some a \<rparr>) = Inr g" by simp
      from Cons.IH [OF this] show ?thesis by simp
    next
      case NegInf
      with True Cons.prems have "int_args as (f\<lparr> f_value := Some a \<rparr>) = Inr g" by simp
      from Cons.IH [OF this] show ?thesis by simp
    next
      case (Dbl w)
      with True Cons.prems have "int_args as (f\<lparr> f_value := Some a \<rparr>) = Inr g" by simp
      from Cons.IH [OF this] show ?thesis by simp
    next
      case (Str s)
      with True Cons.prems have "int_args as (f\<lparr> f_name := Named s \<rparr>) = Inr g" by simp
      from Cons.IH [OF this] show ?thesis by auto
    qed (use True Cons.prems in simp_all)
  qed
qed

lemma field_Inr:
  assumes "field d f = Inr d'"
  shows "(sd_fields d' = sd_fields d @ [f\<lparr> f_offset := sd_size d \<rparr>]
            \<and> sd_size d' = sd_size d + f_size f
            \<and> f_name f \<notin> f_name ` set (sd_fields d)
          \<or> sd_fields d' = sd_fields d \<and> sd_size d' = sd_size d)
       \<and> staticSized d' = staticSized d \<and> littleEndian d' = littleEndian d
       \<and> noAssert d' = noAssert d \<and> sd_int64mode d' = sd_int64mode d
       \<and> bigNumber d' = bigNumber d"
proof (cases "find (\<lambda>g. f_name g = f_name f) (sd_fields d)")
  case None
  then have "f_name f \<notin> f_name ` set (sd_fields d)" by (auto simp add: find_None_iff)
  with None assms show ?thesis
    by (simp add: field_def Let_def split: if_splits) (erule subst, simp)
next
  case (Some g)
  with assms show ?thesis
    by (simp add: field_def Let_def split: if_splits) (erule subst, simp)
qed

lemma field_built:
  assumes "built d" and "field d f = Inr d'" and "wf_field f"
    and "staticSized d \<longrightarrow> f_sizeFieldName f = None"
  shows "built d'"
proof -
  note r = field_Inr [OF assms(2)]
  have w: "wf_field (f\<lparr> f_offset := sd_size d \<rparr>)" using assms(3)
    by (simp add: wf_field_def cong: ftype.case_cong fname.case_cong)
  from r have "sd_fields d' = sd_fields d @ [f\<lparr> f_offset := sd_size d \<rparr>]
            \<and> sd_size d' = sd_size d + f_size f
            \<and> f_name f \<notin> f_name ` set (sd_fields d)
          \<or> sd_fields d' = sd_fields d \<and> sd_size d' = sd_size d" by blast
  then show ?thesis
  proof
    assume a: "sd_fields d' = sd_fields d @ [f\<lparr> f_offset := sd_size d \<rparr>]
            \<and> sd_size d' = sd_size d + f_size f
            \<and> f_name f \<notin> f_name ` set (sd_fields d)"
    have "laid_out 0 (sd_fields d')" using assms(1) a by (simp add: built_def laid_out_append)
    moreover have "sd_size d' = total_size (sd_fields d')"
      using assms(1) a by (simp add: built_def total_size_def)
    moreover have "list_all wf_field (sd_fields d')" using assms(1) a w by (simp add: built_def)
    moreover have "distinct (map f_name (sd_fields d'))" using assms(1) a by (simp add: built_def)
    moreover have "sd_int64mode d' = int64 \<longrightarrow> bigNumber d'"
      using assms(1) r by (simp add: built_def)
    moreover have "staticSized d' \<longrightarrow> list_all (\<lambda>f. f_sizeFieldName f = None) (sd_fields d')"
      using assms(1,4) a r by (simp add: built_def)
    ultimately show ?thesis by (simp add: built_def)
  next
    assume a: "sd_fields d' = sd_fields d \<and> sd_size d' = sd_size d"
    then show ?thesis using assms(1) r by (simp add: built_def)
  qed
qed

lemma defineIntField_field:
  assumes "defineIntField bs sg endian d args = Inr d'"
  shows "\<exists>g. field d g = Inr d' \<and> wf_field g \<and> f_sizeFieldName g = None"
proof -
  define le where "le = (if bs = B8 then False
                else case endian of Some b \<Rightarrow> b | None \<Rightarrow> littleEndian d)"
  define f where "f = \<lparr> f_name = Positional (length (sd_fields d)),
              f_type = (if bs = B64 then Int64T sg le else IntT (bytes_of bs) sg le),
              f_size = bytes_of bs, f_offset = 0, f_codec = True, f_value = None,
              f_sizeFieldName = None, f_int64mode = None \<rparr>"
  have e: "defineIntField bs sg endian d args
             = (case int_args args f of Inl e \<Rightarrow> Inl e | Inr g \<Rightarrow> field d g)"
    by (simp add: defineIntField_def Let_def f_def le_def)
  from assms obtain g where g: "int_args args f = Inr g" and fd: "field d g = Inr d'"
    unfolding e by (cases "int_args args f") simp_all
  note k = int_args_keeps [OF g]
  have t: "f_type g = (if bs = B64 then Int64T sg le else IntT (bytes_of bs) sg le)"
    and s: "f_size g = bytes_of bs" and c: "f_codec g" and n: "f_sizeFieldName g = None"
    and m: "f_int64mode g = None"
    using k by (simp_all add: f_def)
  have "wf_field g" using t s c n m by (cases bs) (simp_all add: wf_field_def split: fname.splits)
  with fd n show ?thesis by blast
qed

lemma defineFloatField_field:
  assumes "defineFloatField dbl endian prim d args = Inr d'"
  shows "\<exists>g. field d g = Inr d' \<and> wf_field g \<and> f_sizeFieldName g = None"
proof -
  define le where "le = (case endian of Some b \<Rightarrow> b | None \<Rightarrow> littleEndian d)"
  define n :: nat where "n = (if dbl then 8 else 4)"
  define f where "f = \<lparr> f_name = Positional (length (sd_fields d)),
              f_type = FloatT n (fst (prim dbl le)) (snd (prim dbl le)),
              f_size = n, f_offset = 0, f_codec = True, f_value = None,
              f_sizeFieldName = None, f_int64mode = None \<rparr>"
  have e: "defineFloatField dbl endian prim d args
             = (case int_args args f of Inl e \<Rightarrow> Inl e | Inr g \<Rightarrow> field d g)"
    by (simp add: defineFloatField_def Let_def f_def le_def n_def)
  from assms obtain g where g: "int_args args f = Inr g" and fd: "field d g = Inr d'"
    unfolding e by (cases "int_args args f") simp_all
  note k = int_args_keeps [OF g]
  have t: "f_type g = FloatT n (fst (prim dbl le)) (snd (prim dbl le))"
    and s: "f_size g = n" and c: "f_codec g" and sn: "f_sizeFieldName g = None"
    and m: "f_int64mode g = None"
    using k by (simp_all add: f_def)
  have "wf_field g" using t s c sn m by (simp add: wf_field_def split: fname.splits)
  with fd sn show ?thesis by blast
qed

lemma wf_named:
  "f_name g = Named nm \<Longrightarrow> f_type g = StringT \<or> f_type g = BufferT \<Longrightarrow>
     (f_sizeFieldName g = None \<longrightarrow> f_codec g) \<Longrightarrow> f_int64mode g = None \<Longrightarrow> wf_field g"
  by (auto simp: wf_field_def)

lemma defineStringField_field:
  assumes "defineStringField d nm arg = Inr d'"
  shows "\<exists>d0 g. field d0 g = Inr d' \<and> wf_field g
           \<and> (staticSized d0 \<longrightarrow> f_sizeFieldName g = None)
           \<and> (d0 = d \<or> d0 = d\<lparr> staticSized := False \<rparr>)"
proof (cases arg)
  case (Str s)
  show ?thesis
  proof (cases "find (\<lambda>g. f_name g = Named s) (sd_fields d)")
    case None
    let ?g = "(fresh_field nm StringT)\<lparr> f_value := Some (Buf (utf8_encode s)),
                                    f_size := utf16_length (utf8_encode s),
                                    f_codec := True \<rparr>"
    from assms Str None have "field d ?g = Inr d'"
      by (simp add: defineStringField_def fresh_field_def split: if_splits)
    moreover have "wf_field ?g" by (intro wf_named [of _ nm]) (simp_all add: fresh_field_def)
    moreover have "f_sizeFieldName ?g = None" by (simp add: fresh_field_def)
    ultimately show ?thesis by blast
  next
    case (Some h)
    let ?g = "(fresh_field nm StringT)\<lparr> f_sizeFieldName := Some s \<rparr>"
    from assms Str Some have "field (d\<lparr> staticSized := False \<rparr>) ?g = Inr d'"
      by (simp add: defineStringField_def fresh_field_def)
    moreover have "wf_field ?g" by (intro wf_named [of _ nm]) (simp_all add: fresh_field_def)
    moreover have "\<not> staticSized (d\<lparr> staticSized := False \<rparr>)" by simp
    ultimately show ?thesis by blast
  qed
next
  case (Buf b)
  let ?g = "(fresh_field nm StringT)\<lparr> f_value := Some arg, f_size := length b, f_codec := True \<rparr>"
  from assms Buf have "field d ?g = Inr d'"
    by (simp add: defineStringField_def fresh_field_def)
  moreover have "wf_field ?g" by (intro wf_named [of _ nm]) (simp_all add: fresh_field_def)
  moreover have "f_sizeFieldName ?g = None" by (simp add: fresh_field_def)
  ultimately show ?thesis by blast
next
  case (Num n)
  let ?g = "(fresh_field nm StringT)\<lparr> f_size := nat n, f_codec := True \<rparr>"
  from assms Num have "field d ?g = Inr d'"
    by (simp add: defineStringField_def fresh_field_def split: if_splits)
  moreover have "wf_field ?g" by (intro wf_named [of _ nm]) (simp_all add: fresh_field_def)
  moreover have "f_sizeFieldName ?g = None" by (simp add: fresh_field_def)
  ultimately show ?thesis by blast
next
  case Null
  let ?g = "(fresh_field nm StringT)\<lparr> f_codec := True \<rparr>"
  from assms Null have "field d ?g = Inr d'"
    by (simp add: defineStringField_def fresh_field_def)
  moreover have "wf_field ?g" by (intro wf_named [of _ nm]) (simp_all add: fresh_field_def)
  moreover have "f_sizeFieldName ?g = None" by (simp add: fresh_field_def)
  ultimately show ?thesis by blast
qed (use assms in \<open>simp_all add: defineStringField_def\<close>)

lemma defineBufferField_field:
  assumes "defineBufferField d nm arg = Inr d'"
  shows "\<exists>g. field d g = Inr d' \<and> wf_field g \<and> f_sizeFieldName g = None"
proof (cases arg)
  case (Buf b)
  let ?g = "(fresh_field nm BufferT)\<lparr> f_value := Some arg, f_size := length b, f_codec := True \<rparr>"
  from assms Buf have "field d ?g = Inr d'"
    by (simp add: defineBufferField_def fresh_field_def)
  moreover have "wf_field ?g" by (intro wf_named [of _ nm]) (simp_all add: fresh_field_def)
  moreover have "f_sizeFieldName ?g = None" by (simp add: fresh_field_def)
  ultimately show ?thesis by blast
next
  case (Num n)
  let ?g = "(fresh_field nm BufferT)\<lparr> f_size := nat n, f_codec := True \<rparr>"
  from assms Num have "field d ?g = Inr d'"
    by (simp add: defineBufferField_def fresh_field_def split: if_splits)
  moreover have "wf_field ?g" by (intro wf_named [of _ nm]) (simp_all add: fresh_field_def)
  moreover have "f_sizeFieldName ?g = None" by (simp add: fresh_field_def)
  ultimately show ?thesis by blast
next
  case Null
  let ?g = "(fresh_field nm BufferT)\<lparr> f_codec := True \<rparr>"
  from assms Null have "field d ?g = Inr d'"
    by (simp add: defineBufferField_def fresh_field_def)
  moreover have "wf_field ?g" by (intro wf_named [of _ nm]) (simp_all add: fresh_field_def)
  moreover have "f_sizeFieldName ?g = None" by (simp add: fresh_field_def)
  ultimately show ?thesis by blast
qed (use assms in \<open>simp_all add: defineBufferField_def\<close>)

lemma definer_built:
  assumes "built d" and "definer d x = Inr d'"
  shows "built d'"
proof (cases x)
  case (DInt bs sg endian args)
  with assms(2) obtain g where "field d g = Inr d'" "wf_field g" "f_sizeFieldName g = None"
    using defineIntField_field by fastforce
  then show ?thesis using field_built [OF assms(1)] by blast
next
  case (DFloat dbl endian prim args)
  with assms(2) obtain g where "field d g = Inr d'" "wf_field g" "f_sizeFieldName g = None"
    using defineFloatField_field by fastforce
  then show ?thesis using field_built [OF assms(1)] by blast
next
  case (DString nm arg)
  with assms(2) obtain d0 g where g: "field d0 g = Inr d'" "wf_field g"
      "staticSized d0 \<longrightarrow> f_sizeFieldName g = None"
      "d0 = d \<or> d0 = d\<lparr> staticSized := False \<rparr>"
    using defineStringField_field [of d nm arg d'] by auto
  have "built d0" using g(4) assms(1) by (auto simp: built_def)
  then show ?thesis using field_built g(1,2,3) by blast
next
  case (DBuffer nm arg)
  with assms(2) obtain g where "field d g = Inr d'" "wf_field g" "f_sizeFieldName g = None"
    using defineBufferField_field by fastforce
  then show ?thesis using field_built [OF assms(1)] by blast
qed

lemma build_built: "built d \<Longrightarrow> build d xs = Inr d' \<Longrightarrow> built d'"
proof (induction xs arbitrary: d)
  case Nil
  then show ?case by simp
next
  case (Cons x xs)
  from Cons.prems(2) obtain d1 where d1: "definer d x = Inr d1" and r: "build d1 xs = Inr d'"
    by (cases "definer d x") simp_all
  have "built d1" using definer_built [OF Cons.prems(1) d1] .
  then show ?case using Cons.IH r by blast
qed

lemma built_StructDef: "built (StructDef loaded os)"
  by (simp add: built_def StructDef_def total_size_def split: option.splits)

section \<open>Offsets\<close>

lemma total_size_append [simp]: "total_size (xs @ ys) = total_size xs + total_size ys"
  by (simp add: total_size_def)

lemma total_size_take_Suc:
  "j < length fs \<Longrightarrow> total_size (take (Suc j) fs) = total_size (take j fs) + f_size (fs ! j)"
  by (simp add: take_Suc_conv_app_nth)

text \<open>
  As the definers register a schema, every field's offset is the sum of the sizes of
  the fields declared before it, a deferred field counting 0.
\<close>

lemma offsets_sum_of_earlier:
  assumes "build (StructDef loaded os) decls = Inr d" and "j < length (sd_fields d)"
  shows "f_offset (sd_fields d ! j) = total_size (take j (sd_fields d))"
proof -
  have "built d" using build_built [OF built_StructDef assms(1)] .
  then have "laid_out 0 (sd_fields d)" by (simp add: built_def)
  from laid_out_nth [OF this assms(2)] show ?thesis by simp
qed

lemma build_len_name_tail:
  "build (StructDef False None)
     [DInt B16 False None [Str ''len''], DString ''name'' (Str ''len''),
      DInt B8 False None [Str ''tail'']] = Inr len_name_tail_schema"
  by (simp add: len_name_tail_schema_def schema_defs)

lemma resolve_len_name_tail:
  assumes "0 < n"
  shows "\<exists>d'. resolve len_name_tail_schema 1 n = Inr d'
           \<and> f_size (sd_fields d' ! 1) = n
           \<and> sd_size d' = 3 + n
           \<and> f_offset (sd_fields d' ! 2) = 2
           \<and> f_offset (sd_fields d' ! 2)
               \<noteq> f_offset (sd_fields d' ! 1) + f_size (sd_fields d' ! 1)
           \<and> f_offset (sd_fields d' ! 2) \<noteq> total_size (take 2 (sd_fields d'))"
  using assms
  by (simp add: resolve_def len_name_tail_schema_def field_def reserved_def Let_def
      total_size_def eval_nat_numeral)

lemma pack_len_name_tail:
  "\<exists>b d'. pack len_name_tail_schema
            [''len'' \<mapsto> Num 5, ''name'' \<mapsto> Str ''hello'', ''tail'' \<mapsto> Num 7] None None None
          = (None, b, d')
     \<and> b = [0, 5, 7, 101, 108, 108, 111, 0]
     \<and> map f_offset (sd_fields d') = [0, 2, 2] \<and> map f_size (sd_fields d') = [2, 5, 1]"
  by (simp add: len_name_tail_schema_def pack_def resolve_pack_def resolve_def find_index_def
      pack_value_def codec_defs schema_defs)

text \<open>
  C3. A schema with a 16-bit field \<open>len\<close>, a text field \<open>name\<close> whose size is deferred to
  \<open>len\<close>, and a byte \<open>tail\<close> declared after it. When the deferred field is resolved to a
  size \<open>n > 0\<close>, as \<open>pack\<close> and \<open>unpack\<close> do, \<open>name\<close> has the size \<open>n\<close> and the
  schema's size has grown by \<open>n\<close>, but \<open>tail\<close> keeps the offset 2 it was registered
  with, which is neither the offset of \<open>name\<close> plus its size nor the sum of the sizes of
  the earlier fields. So \<open>tail\<close> lies inside the text: \<open>pack\<close> allocates 8 bytes for
  \<open>{len: 5, name: "hello", tail: 7}\<close> and writes \<open>tail\<close> over the first byte of the
  text.
\<close>

theorem deferred_tail_offset_stale:
  assumes "0 < n"
  shows "\<exists>d. build (StructDef False None)
               [DInt B16 False None [Str ''len''], DString ''name'' (Str ''len''),
                DInt B8 False None [Str ''tail'']] = Inr d
           \<and> (\<exists>d'. resolve d 1 n = Inr d'
                 \<and> f_size (sd_fields d' ! 1) = n
                 \<and> sd_size d' = 3 + n
                 \<and> f_offset (sd_fields d' ! 2) = 2
                 \<and> f_offset (sd_fields d' ! 2)
                     \<noteq> f_offset (sd_fields d' ! 1) + f_size (sd_fields d' ! 1)
                 \<and> f_offset (sd_fields d' ! 2) \<noteq> total_size (take 2 (sd_fields d')))
           \<and> (\<exists>b d'. pack d [''len'' \<mapsto> Num 5, ''name'' \<mapsto> Str ''hello'', ''tail'' \<mapsto> Num 7]
                          None None None = (None, b, d')
                 \<and> b = [0, 5, 7, 101, 108, 108, 111, 0]
                 \<and> map f_offset (sd_fields d') = [0, 2, 2]
                 \<and> map f_size (sd_fields d') = [2, 5, 1])"
  by (rule exI [of _ len_name_tail_schema])
    (intro conjI build_len_name_tail resolve_len_name_tail [OF assms] pack_len_name_tail)

theorem deferred_tail_offset_stale_witness:
  "\<exists>d. build (StructDef False None)
         [DInt B16 False None [Str ''len''], DString ''name'' (Str ''len''),
          DInt B8 False None [Str ''tail'']] = Inr d
     \<and> (\<exists>d'. resolve d 1 5 = Inr d'
           \<and> f_size (sd_fields d' ! 1) = 5
           \<and> sd_size d' = 3 + 5
           \<and> f_offset (sd_fields d' ! 2) = 2
           \<and> f_offset (sd_fields d' ! 2)
               \<noteq> f_offset (sd_fields d' ! 1) + f_size (sd_fields d' ! 1)
           \<and> f_offset (sd_fields d' ! 2) \<noteq> total_size (take 2 (sd_fields d')))
     \<and> (\<exists>b d'. pack d [''len'' \<mapsto> Num 5, ''name'' \<mapsto> Str ''hello'', ''tail'' \<mapsto> Num 7]
                    None None None = (None, b, d')
           \<and> b = [0, 5, 7, 101, 108, 108, 111, 0]
           \<and> map f_offset (sd_fields d') = [0, 2, 2]
           \<and> map f_size (sd_fields d') = [2, 5, 1])"
proof -
  have "0 < (5 :: nat)" by simp
  from deferred_tail_offset_stale [OF this] show ?thesis .
qed

section \<open>pack\<close>

lemma length_writeInt [simp]: "length (snd (writeInt sg le n val off na buf)) = length buf"
  by (cases val) (simp_all add: writeInt_def write_at_def Let_def)

lemma length_writeHalves [simp]:
  "length (snd (writeHalves le hi lo off na buf)) = length buf"
proof -
  have a: "length (snd (case writeInt sg l n hi k na buf of
                 (Some e, b) \<Rightarrow> (Some e, b)
               | (None, b) \<Rightarrow> writeInt sg' l' n' lo k' na b)) = length buf"
    for sg l n k sg' l' n' k'
  proof (cases "writeInt sg l n hi k na buf")
    case (Pair e b)
    have "length b = length buf" using length_writeInt [of sg l n hi k na buf] Pair by simp
    then show ?thesis using Pair by (cases e) simp_all
  qed
  show ?thesis by (simp add: writeHalves_def a)
qed

lemma length_writeInt64 [simp]:
  "length (snd (writeInt64 bn sg le val off na buf)) = length buf"
  by (cases val) (simp_all add: writeInt64_def)

lemma length_fill_zero [simp]: "length (snd (fill_zero buf s e)) = length buf"
  by (simp add: fill_zero_def)

lemma length_buf_write [simp]: "length (snd (buf_write buf s off)) = length buf"
  by (simp add: buf_write_def)

lemma length_writeString [simp]:
  "length (snd (writeString sz val off na buf)) = length buf"
proof (cases val)
  case (Str s)
  show ?thesis
  proof (cases "fill_zero buf off (off + sz)")
    case (Pair e b)
    have "length b = length buf" using length_fill_zero [of buf off "off + sz"] Pair by simp
    then show ?thesis using Pair Str by (cases e) (simp_all add: writeString_def)
  qed
qed (simp_all add: writeString_def)

lemma length_writebuffer [simp]:
  "length (snd (writebuffer sz val off na buf)) = length buf"
  by (cases val) (simp_all add: writebuffer_def)









lemma length_be_bytes [simp]: "length (be_bytes n v) = n"
  by (induction n arbitrary: v) simp_all








lemma zero_in_type_range: "in_type_range sg n 0"
  by (simp add: in_type_range_def)







lemma char_of_zero_byte: "char_of (unat (0 :: byte)) = CHR 0x00"
  by code_simp

lemma utf8_encode_append [simp]: "utf8_encode (s @ t) = utf8_encode s @ utf8_encode t"
  by (simp add: utf8_encode_def)

lemma utf8_encode_nuls [simp]: "utf8_encode (replicate k (CHR 0x00)) = replicate k 0"
  by (simp add: utf8_encode_def)










































text \<open>
  A number in a 64-bit field does not round-trip: while the BigNumber module is not
  loaded \<open>pack\<close> raises the TypeError of \<open>val instanceof BigNumber\<close>; once it is loaded
  \<open>2^20\<close> is written with both halves equal to \<open>2^20\<close>, which the strict reader
  refuses.
\<close>

lemma int64_number_no_round_trip:
  "\<exists>d d' b. build (StructDef False None) [DInt B64 False None [Str ''x'']] = Inr d
     \<and> fst (pack d [''x'' \<mapsto> Num 1048576] None None None) = Some TypeError
     \<and> build (StructDef True None) [DInt B64 False None [Str ''x'']] = Inr d'
     \<and> pack d' [''x'' \<mapsto> Num 1048576] None None None = (None, b, d')
     \<and> b = [0, 16, 0, 0, 0, 16, 0, 0]
     \<and> unpack d' b None None = Inl OverflowError"
proof -
  have h: "js_sar 1048576 32 = 1048576" "js_and 1048576 4294967295 = 1048576"
    "js_and 1048576 4293918720 = 1048576"
    by (simp_all add: js_sar_def js_and_def)
  have w: "writeInt64 True False False (Num 1048576) 0 False [0, 0, 0, 0, 0, 0, 0, 0]
             = (None, [0, 16, 0, 0, 0, 16, 0, 0])"
    by (simp add: writeInt64_def writeHalves_def h codec_defs)
  have t: "writeInt64 False False False (Num 1048576) 0 False [0, 0, 0, 0, 0, 0, 0, 0]
             = (Some TypeError, [0, 0, 0, 0, 0, 0, 0, 0])"
    by (simp add: writeInt64_def)
  have r: "readInt64AsNumber False False None (Some strict) [0, 16, 0, 0, 0, 16, 0, 0] 0 False
             = Inl OverflowError"
    by (simp add: readInt64AsNumber_def h codec_defs)
  have z: "replicate 8 (0 :: byte) = [0, 0, 0, 0, 0, 0, 0, 0]" by (simp add: eval_nat_numeral)
  show ?thesis
    by (simp add: pack_def pack_value_def unpack_def readField_def field_read_def
        field_write_def w t r z schema_defs)
qed

end
